theory Spec2Isabelle
  imports Complex_Main
begin

section \<open>Reward-weighted regression training loop: the array computations\<close>

text \<open>
  The development follows \<^verbatim>\<open>TrainRWRDiffusionAgent.run\<close> of
  \<^verbatim>\<open>agent/finetune/train_rwr_diffusion_agent.py\<close>. Time-major numpy arrays are lists
  of rows, one row per decision step and one entry per environment. The float64 and
  float32 numbers of numpy and torch are taken as real numbers: rounding and overflow
  are outside this model, the formulas and their order are those of the source.
\<close>

subsection \<open>Slicing\<close>

text \<open>\<^verbatim>\<open>trajs[:, env_ind]\<close>: one environment's column.\<close>

definition column :: "'a list list \<Rightarrow> nat \<Rightarrow> 'a list" where
  "column trajs env_ind = map (\<lambda>row. row ! env_ind) trajs"

text \<open>\<^verbatim>\<open>xs[a:b]\<close> for non-negative bounds: Python cuts the slice at the end of the array.\<close>

definition slice :: "'a list \<Rightarrow> nat \<Rightarrow> nat \<Rightarrow> 'a list" where
  "slice xs a b = take (b - a) (drop a xs)"

text \<open>\<^verbatim>\<open>trajs[start : end + 1, env_ind]\<close>.\<close>

definition traj_slice :: "'a list list \<Rightarrow> nat \<Rightarrow> nat \<Rightarrow> nat \<Rightarrow> 'a list" where
  "traj_slice trajs env_ind start end = column (slice trajs start (end + 1)) env_ind"

subsection \<open>Episode segmentation (lines 125 to 132)\<close>

text \<open>\<^verbatim>\<open>np.where(v == 1)[0]\<close>: the indices whose entry is 1, in increasing order.\<close>

definition where_is_one :: "real list \<Rightarrow> nat list" where
  "where_is_one v = filter (\<lambda>i. v ! i = 1) [0..<length v]"

text \<open>
  The body of the inner loop \<^verbatim>\<open>for i in range(len(env_steps) - 1)\<close>; the list
  \<^verbatim>\<open>episodes_start_end\<close> is the accumulator.
\<close>

definition segment_step ::
  "nat \<Rightarrow> nat list \<Rightarrow> nat \<Rightarrow> (nat \<times> nat \<times> nat) list \<Rightarrow> (nat \<times> nat \<times> nat) list" where
  "segment_step env_ind env_steps i acc =
     (let start = env_steps ! i;
          end = env_steps ! (i + 1)
      in if end - start > 1 then acc @ [(env_ind, start, end - 1)] else acc)"

text \<open>The body of the outer loop \<^verbatim>\<open>for env_ind in range(self.n_envs)\<close>.\<close>

definition segment_env ::
  "real list list \<Rightarrow> nat \<Rightarrow> (nat \<times> nat \<times> nat) list \<Rightarrow> (nat \<times> nat \<times> nat) list" where
  "segment_env firsts_trajs env_ind acc =
     (let env_steps = where_is_one (column firsts_trajs env_ind)
      in fold (segment_step env_ind env_steps) [0..<length env_steps - 1] acc)"

definition episodes_start_end :: "nat \<Rightarrow> real list list \<Rightarrow> (nat \<times> nat \<times> nat) list" where
  "episodes_start_end n_envs firsts_trajs = fold (segment_env firsts_trajs) [0..<n_envs] []"

text \<open>
  The segmenter in the words of the specification: per environment column, the
  consecutive pairs of marked indices, kept when more than one apart.
\<close>

definition consecutive_pairs :: "'a list \<Rightarrow> ('a \<times> 'a) list" where
  "consecutive_pairs xs = zip xs (tl xs)"

definition spec_segments_env :: "real list list \<Rightarrow> nat \<Rightarrow> (nat \<times> nat \<times> nat) list" where
  "spec_segments_env firsts_trajs env =
     map (\<lambda>(start, next_start). (env, start, next_start - 1))
       (filter (\<lambda>(start, next_start). next_start - start > 1)
          (consecutive_pairs (where_is_one (column firsts_trajs env))))"

definition spec_segments :: "nat \<Rightarrow> real list list \<Rightarrow> (nat \<times> nat \<times> nat) list" where
  "spec_segments n_envs firsts_trajs = concat (map (spec_segments_env firsts_trajs) [0..<n_envs])"

text \<open>A matrix of the shape the rollout allocates: \<^verbatim>\<open>np.zeros((n_steps + 1, n_envs))\<close>.\<close>

definition has_shape :: "'a list list \<Rightarrow> nat \<Rightarrow> nat \<Rightarrow> bool" where
  "has_shape m rows cols = (length m = rows \<and> list_all (\<lambda>row. length row = cols) m)"

subsection \<open>Discounted returns (lines 150 to 163)\<close>

text \<open>
  \<^verbatim>\<open>[self.gamma**t * r for t, r in zip(list(range(end - start + 1)), rewards)]\<close>
\<close>

definition discounted_rewards :: "real \<Rightarrow> nat \<Rightarrow> nat \<Rightarrow> real list \<Rightarrow> real list" where
  "discounted_rewards gamma start end rewards =
     map (\<lambda>(t, r). gamma ^ t * r) (zip [0..<end - start + 1] rewards)"

text \<open>\<^verbatim>\<open>np.cumsum\<close>: the running sums, left to right.\<close>

fun cumsum_from :: "real \<Rightarrow> real list \<Rightarrow> real list" where
  "cumsum_from acc [] = []"
| "cumsum_from acc (x # xs) = (acc + x) # cumsum_from (acc + x) xs"

definition cumsum :: "real list \<Rightarrow> real list" where
  "cumsum xs = cumsum_from 0 xs"

text \<open>\<^verbatim>\<open>np.cumsum(y[::-1])[::-1]\<close>\<close>

definition reverse_cumsum :: "real list \<Rightarrow> real list" where
  "reverse_cumsum y = rev (cumsum (rev y))"

text \<open>
  The two comprehensions over \<^verbatim>\<open>episodes_start_end\<close> and the final
  \<^verbatim>\<open>np.concatenate\<close>.
\<close>

definition discounted_reward_trajs_split ::
  "real \<Rightarrow> real list list \<Rightarrow> (nat \<times> nat \<times> nat) list \<Rightarrow> real list list" where
  "discounted_reward_trajs_split gamma reward_trajs segs =
     map (\<lambda>(env_ind, start, end).
            discounted_rewards gamma start end (traj_slice reward_trajs env_ind start end)) segs"

definition returns_split :: "real \<Rightarrow> real list list \<Rightarrow> (nat \<times> nat \<times> nat) list \<Rightarrow> real list list" where
  "returns_split gamma reward_trajs segs =
     map reverse_cumsum (discounted_reward_trajs_split gamma reward_trajs segs)"

definition returns_concat :: "real \<Rightarrow> real list list \<Rightarrow> (nat \<times> nat \<times> nat) list \<Rightarrow> real list" where
  "returns_concat gamma reward_trajs segs = concat (returns_split gamma reward_trajs segs)"

text \<open>
  The return computer in the words of the specification: entry \<open>i\<close> is the sum of
  \<open>gamma ^ j * r\<^sub>j\<close> over \<open>j \<ge> i\<close>.
\<close>

definition spec_returns :: "real \<Rightarrow> real list \<Rightarrow> real list" where
  "spec_returns g r = map (\<lambda>i. \<Sum>j = i..<length r. g ^ j * r ! j) [0..<length r]"

subsection \<open>Reward weights (lines 203 to 218)\<close>

text \<open>\<^verbatim>\<open>np.mean\<close> and \<^verbatim>\<open>ndarray.std\<close> (population form, \<^verbatim>\<open>ddof = 0\<close>).\<close>

definition np_mean :: "real list \<Rightarrow> real" where
  "np_mean xs = sum_list xs / real (length xs)"

definition np_std :: "real list \<Rightarrow> real" where
  "np_std xs = sqrt (np_mean (map (\<lambda>x. (x - np_mean xs)\<^sup>2) xs))"

text \<open>The denominator of the normalisation, \<^verbatim>\<open>returns_trajs_split.std() + 1e-3\<close>.\<close>

definition norm_denominator :: "real list \<Rightarrow> real" where
  "norm_denominator xs = np_std xs + 1 / 1000"

definition normalize_returns :: "real list \<Rightarrow> real list" where
  "normalize_returns xs = map (\<lambda>x. (x - np_mean xs) / norm_denominator xs) xs"

text \<open>
  \<^verbatim>\<open>torch.exp(self.beta * rewards_k)\<close> followed by \<^verbatim>\<open>clamp_(max=self.max_reward_weight)\<close>.
  The line that would divide by the mean weight is a comment in the source, so
  nothing follows the clamp.
\<close>

definition rewards_k_scaled :: "real \<Rightarrow> real \<Rightarrow> real list \<Rightarrow> real list" where
  "rewards_k_scaled beta max_reward_weight rewards_k =
     map (\<lambda>z. min (exp (beta * z)) max_reward_weight) rewards_k"

definition reward_weights :: "real \<Rightarrow> real \<Rightarrow> real list \<Rightarrow> real list" where
  "reward_weights beta max_reward_weight returns =
     rewards_k_scaled beta max_reward_weight (normalize_returns returns)"

text \<open>Population mean and standard deviation in the words of the specification.\<close>

definition spec_mean :: "real list \<Rightarrow> real" where
  "spec_mean xs = (\<Sum>i<length xs. xs ! i) / real (length xs)"

definition spec_std :: "real list \<Rightarrow> real" where
  "spec_std xs = sqrt ((\<Sum>i<length xs. (xs ! i - spec_mean xs)\<^sup>2) / real (length xs))"

definition spec_weights :: "real \<Rightarrow> real \<Rightarrow> real list \<Rightarrow> real list" where
  "spec_weights b m xs =
     map (\<lambda>x. min (exp (b * ((x - spec_mean xs) / (spec_std xs + 1 / 1000)))) m) xs"

subsection \<open>Reward weights with the non-finite values of floating point\<close>

text \<open>
  A float64 of numpy or a float32 of torch is a finite number, an infinity or nan.
  The operations below follow IEEE 754 on these: a finite result whose magnitude
  exceeds the largest finite value \<open>M\<close> of the format becomes an infinity, and the
  undefined forms give nan. Rounding of finite results, underflow and the sign of
  zero are not modelled.
\<close>

datatype fval = Fin real | PInf | NInf | NaN

definition float64_max :: real where
  "float64_max = (2 - 1 / 2 ^ 52) * 2 ^ 1023"

definition float32_max :: real where
  "float32_max = (2 - 1 / 2 ^ 23) * 2 ^ 127"

definition overflow :: "real \<Rightarrow> real \<Rightarrow> fval" where
  "overflow M x = (if M < x then PInf else if x < - M then NInf else Fin x)"

fun fneg :: "fval \<Rightarrow> fval" where
  "fneg (Fin x) = Fin (- x)"
| "fneg PInf = NInf"
| "fneg NInf = PInf"
| "fneg NaN = NaN"

fun fadd :: "real \<Rightarrow> fval \<Rightarrow> fval \<Rightarrow> fval" where
  "fadd M (Fin x) (Fin y) = overflow M (x + y)"
| "fadd M NaN b = NaN"
| "fadd M a NaN = NaN"
| "fadd M PInf NInf = NaN"
| "fadd M NInf PInf = NaN"
| "fadd M PInf b = PInf"
| "fadd M a PInf = PInf"
| "fadd M NInf b = NInf"
| "fadd M a NInf = NInf"

definition fsub :: "real \<Rightarrow> fval \<Rightarrow> fval \<Rightarrow> fval" where
  "fsub M a b = fadd M a (fneg b)"

fun fmul :: "real \<Rightarrow> fval \<Rightarrow> fval \<Rightarrow> fval" where
  "fmul M (Fin x) (Fin y) = overflow M (x * y)"
| "fmul M NaN b = NaN"
| "fmul M a NaN = NaN"
| "fmul M (Fin x) PInf = (if x = 0 then NaN else if 0 < x then PInf else NInf)"
| "fmul M (Fin x) NInf = (if x = 0 then NaN else if 0 < x then NInf else PInf)"
| "fmul M PInf (Fin y) = (if y = 0 then NaN else if 0 < y then PInf else NInf)"
| "fmul M NInf (Fin y) = (if y = 0 then NaN else if 0 < y then NInf else PInf)"
| "fmul M PInf PInf = PInf"
| "fmul M PInf NInf = NInf"
| "fmul M NInf PInf = NInf"
| "fmul M NInf NInf = PInf"

fun fdiv :: "real \<Rightarrow> fval \<Rightarrow> fval \<Rightarrow> fval" where
  "fdiv M (Fin x) (Fin y) =
     (if y = 0 then (if x = 0 then NaN else if 0 < x then PInf else NInf)
      else overflow M (x / y))"
| "fdiv M NaN b = NaN"
| "fdiv M a NaN = NaN"
| "fdiv M (Fin x) PInf = Fin 0"
| "fdiv M (Fin x) NInf = Fin 0"
| "fdiv M PInf (Fin y) = (if 0 \<le> y then PInf else NInf)"
| "fdiv M NInf (Fin y) = (if 0 \<le> y then NInf else PInf)"
| "fdiv M PInf PInf = NaN"
| "fdiv M PInf NInf = NaN"
| "fdiv M NInf PInf = NaN"
| "fdiv M NInf NInf = NaN"

fun fsqrt :: "fval \<Rightarrow> fval" where
  "fsqrt (Fin x) = (if x < 0 then NaN else Fin (sqrt x))"
| "fsqrt PInf = PInf"
| "fsqrt NInf = NaN"
| "fsqrt NaN = NaN"

fun fexp :: "real \<Rightarrow> fval \<Rightarrow> fval" where
  "fexp M (Fin x) = overflow M (exp x)"
| "fexp M PInf = PInf"
| "fexp M NInf = Fin 0"
| "fexp M NaN = NaN"

text \<open>\<^verbatim>\<open>clamp_(max=m)\<close>: the smaller of the entry and \<open>m\<close>; nan stays nan.\<close>

fun clamp_max :: "real \<Rightarrow> fval \<Rightarrow> fval" where
  "clamp_max m (Fin x) = Fin (min x m)"
| "clamp_max m PInf = Fin m"
| "clamp_max m NInf = NInf"
| "clamp_max m NaN = NaN"

text \<open>\<^verbatim>\<open>.float()\<close>: float64 to float32.\<close>

fun to_float32 :: "fval \<Rightarrow> fval" where
  "to_float32 (Fin x) = overflow float32_max x"
| "to_float32 v = v"

text \<open>\<^verbatim>\<open>np.add.reduce\<close>, taken left to right.\<close>

definition f_sum :: "fval list \<Rightarrow> fval" where
  "f_sum xs = foldl (fadd float64_max) (Fin 0) xs"

definition f_mean :: "fval list \<Rightarrow> fval" where
  "f_mean xs = fdiv float64_max (f_sum xs) (Fin (real (length xs)))"

text \<open>\<^verbatim>\<open>ndarray.std\<close>: the deviations are multiplied by themselves, averaged, and rooted.\<close>

definition f_std :: "fval list \<Rightarrow> fval" where
  "f_std xs =
     fsqrt (f_mean (map (\<lambda>x. fmul float64_max (fsub float64_max x (f_mean xs))
                                              (fsub float64_max x (f_mean xs))) xs))"

definition f_norm_denominator :: "fval list \<Rightarrow> fval" where
  "f_norm_denominator xs = fadd float64_max (f_std xs) (Fin (1 / 1000))"

definition f_normalize_returns :: "fval list \<Rightarrow> fval list" where
  "f_normalize_returns xs =
     map (\<lambda>x. fdiv float64_max (fsub float64_max x (f_mean xs)) (f_norm_denominator xs)) xs"

definition f_rewards_k_scaled :: "real \<Rightarrow> real \<Rightarrow> fval list \<Rightarrow> fval list" where
  "f_rewards_k_scaled beta max_reward_weight returns_normalized =
     map (\<lambda>z. clamp_max max_reward_weight
                 (fexp float32_max (fmul float32_max (Fin beta) (to_float32 z))))
       returns_normalized"

definition f_reward_weights :: "real \<Rightarrow> real \<Rightarrow> fval list \<Rightarrow> fval list" where
  "f_reward_weights beta max_reward_weight returns =
     f_rewards_k_scaled beta max_reward_weight (f_normalize_returns returns)"

text \<open>Classes of values used in the statements below.\<close>

fun is_finite :: "fval \<Rightarrow> bool" where
  "is_finite (Fin x) = True"
| "is_finite v = False"

fun positive_or_nonfinite :: "fval \<Rightarrow> bool" where
  "positive_or_nonfinite (Fin x) = (0 < x)"
| "positive_or_nonfinite PInf = True"
| "positive_or_nonfinite NInf = False"
| "positive_or_nonfinite NaN = True"

fun finite_at_most :: "real \<Rightarrow> fval \<Rightarrow> bool" where
  "finite_at_most m (Fin x) = (x \<le> m)"
| "finite_at_most m v = False"

subsection \<open>Minibatches of one epoch (lines 227 to 231)\<close>

text \<open>\<^verbatim>\<open>max(1, total_steps // self.batch_size)\<close>; the division raises on a zero batch size.\<close>

datatype error = ZeroDivisionError | UnboundLocalError string | IndexError

definition num_batch :: "nat \<Rightarrow> nat \<Rightarrow> error + nat" where
  "num_batch total_steps batch_size =
     (if batch_size = 0 then Inl ZeroDivisionError else Inr (max 1 (total_steps div batch_size)))"

text \<open>\<^verbatim>\<open>inds_k[start:end]\<close> with \<^verbatim>\<open>start = batch * batch_size\<close>, \<^verbatim>\<open>end = start + batch_size\<close>.\<close>

definition inds_b :: "nat list \<Rightarrow> nat \<Rightarrow> nat \<Rightarrow> nat list" where
  "inds_b inds_k batch_size batch =
     (let start = batch * batch_size;
          end = start + batch_size
      in slice inds_k start end)"

text \<open>The index batches of one epoch, given the shuffled \<^verbatim>\<open>inds_k\<close>.\<close>

definition epoch_batches :: "nat list \<Rightarrow> nat \<Rightarrow> error + nat list list" where
  "epoch_batches inds_k batch_size =
     (case num_batch (length inds_k) batch_size of
        Inl e \<Rightarrow> Inl e
      | Inr nb \<Rightarrow> Inr (map (inds_b inds_k batch_size) [0..<nb]))"


text \<open>Tensor indexing by an index array, \<^verbatim>\<open>obs_k[inds_b]\<close>; an index past the end raises.\<close>

definition gather :: "'x list \<Rightarrow> nat list \<Rightarrow> error + 'x list" where
  "gather xs inds =
     (if list_all (\<lambda>i. i < length xs) inds then Inr (map (\<lambda>i. xs ! i) inds) else Inl IndexError)"

section \<open>The training loop\<close>

subsection \<open>Configuration, collaborators and loop state\<close>

text \<open>
  The fields of \<^verbatim>\<open>self\<close> that \<^verbatim>\<open>run\<close> reads. Counters and frequencies are Python
  integers; sizes that are only ever used as array extents are natural numbers.
\<close>

record config =
  n_train_itr :: int
  n_envs :: nat
  n_steps :: nat
  act_steps :: nat
  render_freq :: int
  render_video :: bool
  n_render :: nat
  val_freq :: int
  force_train :: bool
  reset_at_iteration :: bool
  gamma :: real
  beta :: real
  max_reward_weight :: real
  update_epochs :: nat
  batch_size :: nat
  max_grad_norm :: "real option"
  save_model_freq :: int
  log_freq :: int
  best_reward_threshold_for_success :: real
  use_wandb :: bool

text \<open>One entry of \<^verbatim>\<open>run_results\<close>: a dictionary from metric names to numbers.\<close>

type_synonym run_record = "string \<rightharpoonup> real"

text \<open>
  The calls the loop makes to its collaborators, in the order it makes them. The
  per-environment render options are the iteration and trial index of the video path.
\<close>

datatype ('o, 'a) event =
    ModelMode bool
  | ResetEnvAll "(int \<times> nat) option list"
  | ModelForward "'o list" bool
  | VenvStep "'a list list"
  | LogWarning
  | ModelLoss "'a list list" "'o list" "real list"
  | OptimizerStep
  | LrSchedulerStep
  | SaveModel
  | LogInfo
  | WandbLog bool
  | PickleDump "run_record list"

text \<open>
  The policy, the vectorised environment, the optimiser, the random generator and the
  clock are outside the file. They act on an abstract world \<open>'w\<close>; \<open>'o\<close> is one
  environment's observation and \<open>'a\<close> one action, so a sampled chunk is an \<open>'a list\<close>.
\<close>

record ('o, 'a, 'w) collaborators =
  reset_env_all :: "(int \<times> nat) option list \<Rightarrow> 'w \<Rightarrow> 'o list \<times> 'w"
  model_forward :: "'o list \<Rightarrow> bool \<Rightarrow> 'w \<Rightarrow> 'a list list \<times> 'w"
  venv_step :: "'a list list \<Rightarrow> 'w \<Rightarrow> ('o list \<times> real list \<times> bool list) \<times> 'w"
  random_shuffle :: "nat list \<Rightarrow> 'w \<Rightarrow> nat list \<times> 'w"
  model_loss :: "'a list list \<Rightarrow> 'o list \<Rightarrow> real list \<Rightarrow> 'w \<Rightarrow> real"
  optimizer_update :: "real option \<Rightarrow> 'a list list \<Rightarrow> 'o list \<Rightarrow> real list \<Rightarrow> 'w \<Rightarrow> 'w"
  lr_scheduler_step :: "'w \<Rightarrow> 'w"
  save_model :: "'w \<Rightarrow> 'w"
  timer :: "'w \<Rightarrow> real \<times> 'w"

text \<open>
  The local variables of \<^verbatim>\<open>run\<close> that live across iterations, \<^verbatim>\<open>self.itr\<close>, the
  world, the pickled results file and the trace of calls. A local that no assignment
  has reached yet is \<open>None\<close>: reading it raises \<^verbatim>\<open>UnboundLocalError\<close>.
\<close>

record ('o, 'a, 'w) loop_state =
  itr :: int
  run_results :: "run_record list"
  done_venv :: "real list"
  last_itr_eval :: "bool option"
  prev_obs_venv :: "'o list option"
  obs_trajs_split :: "'o list list option"
  samples_trajs_split :: "'a list list list option"
  returns_trajs_split :: "real list option"
  loss :: "real option"
  world :: 'w
  result_file :: "run_record list option"
  trace :: "('o, 'a) event list"

text \<open>
  The state at the \<^verbatim>\<open>while\<close>: only \<^verbatim>\<open>run_results\<close> and \<^verbatim>\<open>done_venv\<close> are assigned.
  \<^verbatim>\<open>self.itr\<close> is set by the parent class \<^verbatim>\<open>TrainAgent\<close>, which is not in this file, so
  its starting value is a parameter.
\<close>

definition initial_state :: "config \<Rightarrow> int \<Rightarrow> 'w \<Rightarrow> ('o, 'a, 'w) loop_state" where
  "initial_state cfg itr0 w =
     \<lparr> itr = itr0, run_results = [], done_venv = replicate (n_envs cfg) 0,
       last_itr_eval = None, prev_obs_venv = None, obs_trajs_split = None,
       samples_trajs_split = None, returns_trajs_split = None, loss = None,
       world = w, result_file = None, trace = [] \<rparr>"

text \<open>A loop whose body may raise: the first error ends it.\<close>

fun for_each :: "('x \<Rightarrow> 's \<Rightarrow> error + 's) \<Rightarrow> 'x list \<Rightarrow> 's \<Rightarrow> error + 's" where
  "for_each body [] s = Inr s"
| "for_each body (x # xs) s = (case body x s of Inl e \<Rightarrow> Inl e | Inr s' \<Rightarrow> for_each body xs s')"

subsection \<open>Start of an iteration (lines 60 to 82)\<close>

definition options_venv :: "config \<Rightarrow> int \<Rightarrow> error + (int \<times> nat) option list" where
  "options_venv cfg i =
     (if render_freq cfg = 0 then Inl ZeroDivisionError
      else if i mod render_freq cfg = 0 \<and> render_video cfg then
        (if n_render cfg \<le> n_envs cfg
         then Inr (map (\<lambda>env_ind. if env_ind < n_render cfg then Some (i, env_ind) else None)
                     [0..<n_envs cfg])
         else Inl IndexError)
      else Inr (replicate (n_envs cfg) None))"

text \<open>\<^verbatim>\<open>eval_mode = self.itr % self.val_freq == 0 and not self.force_train\<close>\<close>

definition eval_mode :: "config \<Rightarrow> int \<Rightarrow> error + bool" where
  "eval_mode cfg i =
     (if val_freq cfg = 0 then Inl ZeroDivisionError
      else Inr (i mod val_freq cfg = 0 \<and> \<not> force_train cfg))"

text \<open>
  \<^verbatim>\<open>self.reset_at_iteration or eval_mode or last_itr_eval\<close>: Python evaluates left to
  right and stops at the first true operand, so \<^verbatim>\<open>last_itr_eval\<close> is read only when
  the other two are false.
\<close>

definition reset_condition :: "config \<Rightarrow> bool \<Rightarrow> ('o, 'a, 'w) loop_state \<Rightarrow> error + bool" where
  "reset_condition cfg em st =
     (if reset_at_iteration cfg then Inr True
      else if em then Inr True
      else (case last_itr_eval st of
              None \<Rightarrow> Inl (UnboundLocalError ''last_itr_eval'')
            | Some b \<Rightarrow> Inr b))"

definition begin_iteration ::
  "config \<Rightarrow> ('o, 'a, 'w) collaborators \<Rightarrow> (int \<times> nat) option list \<Rightarrow> bool \<Rightarrow>
   ('o, 'a, 'w) loop_state \<Rightarrow> error + ('o, 'a, 'w) loop_state \<times> real list list" where
  "begin_iteration cfg env opts em st0 =
     (let st = st0\<lparr>trace := trace st0 @ [ModelMode em]\<rparr>;
          firsts_trajs = replicate (n_steps cfg + 1) (replicate (n_envs cfg) 0)
      in case reset_condition cfg em st of
           Inl e \<Rightarrow> Inl e
         | Inr True \<Rightarrow>
             (let (obs, w) = reset_env_all env opts (world st)
              in Inr (st\<lparr>prev_obs_venv := Some obs, world := w,
                         trace := trace st @ [ResetEnvAll opts],
                         last_itr_eval := Some em\<rparr>,
                      firsts_trajs[0 := replicate (n_envs cfg) 1]))
         | Inr False \<Rightarrow>
             Inr (st\<lparr>last_itr_eval := Some em\<rparr>, firsts_trajs[0 := done_venv st]))"

subsection \<open>Collecting the rollout (lines 96 to 122)\<close>

record ('o, 'a) buffers =
  obs_trajs :: "'o list list"
  samples_trajs :: "'a list list list"
  reward_trajs :: "real list list"
  firsts_trajs :: "real list list"

definition empty_buffers :: "real list list \<Rightarrow> ('o, 'a) buffers" where
  "empty_buffers firsts = \<lparr> obs_trajs = [], samples_trajs = [], reward_trajs = [], firsts_trajs = firsts \<rparr>"

text \<open>
  One pass of \<^verbatim>\<open>for step in range(self.n_steps)\<close>. The environment's boolean done
  flags become 0 and 1 when numpy stores them in the float array \<^verbatim>\<open>firsts_trajs\<close>.
\<close>

definition collect_step ::
  "config \<Rightarrow> ('o, 'a, 'w) collaborators \<Rightarrow> bool \<Rightarrow> nat \<Rightarrow>
   ('o, 'a, 'w) loop_state \<times> ('o, 'a) buffers \<Rightarrow> error + ('o, 'a, 'w) loop_state \<times> ('o, 'a) buffers" where
  "collect_step cfg env em step sb =
     (let (st, buf) = sb
      in case prev_obs_venv st of
           None \<Rightarrow> Inl (UnboundLocalError ''prev_obs_venv'')
         | Some prev \<Rightarrow>
             (let (samples, w1) = model_forward env prev em (world st);
                  action_venv = map (take (act_steps cfg)) samples;
                  ((obs_venv, reward_venv, dones), w2) = venv_step env action_venv w1
              in Inr (st\<lparr>prev_obs_venv := Some obs_venv,
                         done_venv := map of_bool dones,
                         world := w2,
                         trace := trace st @ [ModelForward prev em, VenvStep action_venv]\<rparr>,
                      buf\<lparr>obs_trajs := obs_trajs buf @ [prev],
                          samples_trajs := samples_trajs buf @ [samples],
                          reward_trajs := reward_trajs buf @ [reward_venv],
                          firsts_trajs := (firsts_trajs buf)[step + 1 := map of_bool dones]\<rparr>)))"

definition collect ::
  "config \<Rightarrow> ('o, 'a, 'w) collaborators \<Rightarrow> bool \<Rightarrow>
   ('o, 'a, 'w) loop_state \<times> ('o, 'a) buffers \<Rightarrow> error + ('o, 'a, 'w) loop_state \<times> ('o, 'a) buffers" where
  "collect cfg env em sb = for_each (collect_step cfg env em) [0..<n_steps cfg] sb"


subsection \<open>Episode summary (lines 125 to 184)\<close>

record metrics =
  num_episode_finished :: nat
  avg_episode_reward :: real
  avg_best_reward :: real
  success_rate :: real

text \<open>
  \<^verbatim>\<open>np.max\<close> of a non-empty array. The best reward is divided by \<^verbatim>\<open>self.act_steps\<close>:
  for \<^verbatim>\<open>act_steps = 0\<close> numpy returns inf or nan where the real quotient of the model is
  0, so statements about the metrics assume a positive \<^verbatim>\<open>act_steps\<close>.
\<close>

definition np_max :: "real list \<Rightarrow> real" where
  "np_max xs = fold max (tl xs) (hd xs)"

text \<open>
  With at least one segment the three \<^verbatim>\<open>_split\<close> variables are assigned; with none
  they keep whatever an earlier iteration left in them, the metrics are zero and the
  warning is logged.
\<close>

definition summarize ::
  "config \<Rightarrow> ('o, 'a, 'w) loop_state \<times> ('o, 'a) buffers \<Rightarrow> ('o, 'a, 'w) loop_state \<times> metrics" where
  "summarize cfg sb =
     (let (st, buf) = sb;
          segs = episodes_start_end (n_envs cfg) (firsts_trajs buf)
      in if length segs > 0 then
           (let obs_split = map (\<lambda>(env_ind, start, end). traj_slice (obs_trajs buf) env_ind start end) segs;
                samples_split = map (\<lambda>(env_ind, start, end). traj_slice (samples_trajs buf) env_ind start end) segs;
                reward_trajs_split = map (\<lambda>(env_ind, start, end). traj_slice (reward_trajs buf) env_ind start end) segs;
                returns = returns_concat (gamma cfg) (reward_trajs buf) segs;
                episode_reward = map sum_list reward_trajs_split;
                episode_best_reward = map (\<lambda>reward_traj. np_max reward_traj / real (act_steps cfg)) reward_trajs_split
            in (st\<lparr>obs_trajs_split := Some obs_split,
                   samples_trajs_split := Some samples_split,
                   returns_trajs_split := Some returns\<rparr>,
                \<lparr> num_episode_finished = length reward_trajs_split,
                  avg_episode_reward = np_mean episode_reward,
                  avg_best_reward = np_mean episode_best_reward,
                  success_rate = np_mean (map (\<lambda>b. of_bool (b \<ge> best_reward_threshold_for_success cfg))
                                            episode_best_reward) \<rparr>))
         else
           (st\<lparr>trace := trace st @ [LogWarning]\<rparr>,
            \<lparr> num_episode_finished = 0, avg_episode_reward = 0, avg_best_reward = 0,
              success_rate = 0 \<rparr>))"

subsection \<open>Policy update (lines 187 to 248)\<close>

text \<open>One minibatch: the body of \<^verbatim>\<open>for batch in range(num_batch)\<close>.\<close>

definition update_batch ::
  "config \<Rightarrow> ('o, 'a, 'w) collaborators \<Rightarrow> 'o list \<Rightarrow> 'a list list \<Rightarrow> real list \<Rightarrow> nat list \<Rightarrow> nat \<Rightarrow>
   ('o, 'a, 'w) loop_state \<Rightarrow> error + ('o, 'a, 'w) loop_state" where
  "update_batch cfg env obs_k samples_k weights inds_k batch st =
     (let ib = inds_b inds_k (batch_size cfg) batch
      in case gather obs_k ib of
           Inl e \<Rightarrow> Inl e
         | Inr obs_b \<Rightarrow>
        (case gather samples_k ib of
           Inl e \<Rightarrow> Inl e
         | Inr samples_b \<Rightarrow>
        (case gather weights ib of
           Inl e \<Rightarrow> Inl e
         | Inr rewards_b \<Rightarrow>
             (let l = model_loss env samples_b obs_b rewards_b (world st);
                  w = optimizer_update env (max_grad_norm cfg) samples_b obs_b rewards_b (world st)
              in Inr (st\<lparr>loss := Some l, world := w,
                         trace := trace st @ [ModelLoss samples_b obs_b rewards_b, OptimizerStep]\<rparr>)))))"

text \<open>
  One epoch: the body of \<^verbatim>\<open>for _ in range(self.update_epochs)\<close>. The shuffle is in
  place, so the next epoch shuffles this epoch's order.
\<close>

definition update_epoch ::
  "config \<Rightarrow> ('o, 'a, 'w) collaborators \<Rightarrow> 'o list \<Rightarrow> 'a list list \<Rightarrow> real list \<Rightarrow> nat \<Rightarrow>
   ('o, 'a, 'w) loop_state \<times> nat list \<Rightarrow> error + ('o, 'a, 'w) loop_state \<times> nat list" where
  "update_epoch cfg env obs_k samples_k weights epoch si =
     (let (st, inds_k) = si;
          (shuffled, w) = random_shuffle env inds_k (world st)
      in case num_batch (length weights) (batch_size cfg) of
           Inl e \<Rightarrow> Inl e
         | Inr nb \<Rightarrow>
             (case for_each (update_batch cfg env obs_k samples_k weights shuffled) [0..<nb]
                     (st\<lparr>world := w\<rparr>) of
                Inl e \<Rightarrow> Inl e
              | Inr st' \<Rightarrow> Inr (st', shuffled)))"

text \<open>
  The block under \<^verbatim>\<open>if not eval_mode\<close>. It reads the three \<^verbatim>\<open>_split\<close> variables
  whether or not this iteration assigned them.
\<close>

definition update ::
  "config \<Rightarrow> ('o, 'a, 'w) collaborators \<Rightarrow> ('o, 'a, 'w) loop_state \<Rightarrow> error + ('o, 'a, 'w) loop_state" where
  "update cfg env st =
     (case obs_trajs_split st of
        None \<Rightarrow> Inl (UnboundLocalError ''obs_trajs_split'')
      | Some obs_split \<Rightarrow>
     (case samples_trajs_split st of
        None \<Rightarrow> Inl (UnboundLocalError ''samples_trajs_split'')
      | Some samples_split \<Rightarrow>
     (case returns_trajs_split st of
        None \<Rightarrow> Inl (UnboundLocalError ''returns_trajs_split'')
      | Some returns \<Rightarrow>
          (let obs_k = concat obs_split;
               samples_k = concat samples_split;
               rewards_k = normalize_returns returns;
               weights = rewards_k_scaled (beta cfg) (max_reward_weight cfg) rewards_k;
               total_steps = length weights;
               inds_k = [0..<total_steps]
           in case for_each (update_epoch cfg env obs_k samples_k weights) [0..<update_epochs cfg]
                     (st\<lparr>returns_trajs_split := Some rewards_k\<rparr>, inds_k) of
                Inl e \<Rightarrow> Inl e
              | Inr (st', _) \<Rightarrow> Inr st'))))"

subsection \<open>Scheduler, checkpoint and metrics (lines 250 to 301)\<close>

definition checkpoint ::
  "config \<Rightarrow> ('o, 'a, 'w) collaborators \<Rightarrow> ('o, 'a, 'w) loop_state \<Rightarrow> error + ('o, 'a, 'w) loop_state" where
  "checkpoint cfg env st0 =
     (let st = st0\<lparr>world := lr_scheduler_step env (world st0), trace := trace st0 @ [LrSchedulerStep]\<rparr>
      in if save_model_freq cfg = 0 then Inl ZeroDivisionError
         else if itr st mod save_model_freq cfg = 0 \<or> itr st = n_train_itr cfg - 1
         then Inr (st\<lparr>world := save_model env (world st), trace := trace st @ [SaveModel]\<rparr>)
         else Inr st)"

text \<open>The record a logging iteration completes, before the time is added.\<close>

definition eval_record :: "run_record \<Rightarrow> metrics \<Rightarrow> run_record" where
  "eval_record r m =
     r(''eval_success_rate'' \<mapsto> success_rate m,
       ''eval_episode_reward'' \<mapsto> avg_episode_reward m,
       ''eval_best_reward'' \<mapsto> avg_best_reward m)"

definition train_record :: "run_record \<Rightarrow> real \<Rightarrow> metrics \<Rightarrow> run_record" where
  "train_record r l m = r(''loss'' \<mapsto> l, ''train_episode_reward'' \<mapsto> avg_episode_reward m)"

text \<open>\<^verbatim>\<open>wandb.log(..., commit=...)\<close> when \<^verbatim>\<open>self.use_wandb\<close>.\<close>

definition wandb_events :: "config \<Rightarrow> bool \<Rightarrow> ('o, 'a) event list" where
  "wandb_events cfg commit = (if use_wandb cfg then [WandbLog commit] else [])"

text \<open>
  Lines 258 to 301. The bare record is appended first, on every iteration; the branch
  under \<^verbatim>\<open>self.itr % self.log_freq == 0\<close> fills it in and dumps the list. In training
  mode the log line reads \<^verbatim>\<open>loss\<close> and calls the timer once before the record does.
\<close>

definition log_metrics ::
  "config \<Rightarrow> ('o, 'a, 'w) collaborators \<Rightarrow> bool \<Rightarrow> metrics \<Rightarrow> ('o, 'a, 'w) loop_state \<Rightarrow>
   error + ('o, 'a, 'w) loop_state" where
  "log_metrics cfg env em m st0 =
     (let bare = [''itr'' \<mapsto> of_int (itr st0)];
          st = st0\<lparr>run_results := run_results st0 @ [bare]\<rparr>
      in if log_freq cfg = 0 then Inl ZeroDivisionError
         else if itr st mod log_freq cfg = 0 then
           (case (if em
                  then Inr (eval_record bare m, world st, LogInfo # wandb_events cfg False)
                  else (case loss st of
                          None \<Rightarrow> Inl (UnboundLocalError ''loss'')
                        | Some l \<Rightarrow>
                            Inr (train_record bare l m, snd (timer env (world st)),
                                 LogInfo # wandb_events cfg True))) of
              Inl e \<Rightarrow> Inl e
            | Inr (r, w, evs) \<Rightarrow>
                (let (t, w') = timer env w;
                     results = run_results st0 @ [r(''time'' \<mapsto> t)]
                 in Inr (st\<lparr>run_results := results, world := w', result_file := Some results,
                            trace := trace st @ evs @ [PickleDump results],
                            itr := itr st + 1\<rparr>)))
         else Inr (st\<lparr>itr := itr st + 1\<rparr>))"

subsection \<open>One iteration and the whole run\<close>

definition run_iteration ::
  "config \<Rightarrow> ('o, 'a, 'w) collaborators \<Rightarrow> ('o, 'a, 'w) loop_state \<Rightarrow> error + ('o, 'a, 'w) loop_state" where
  "run_iteration cfg env st =
     (case options_venv cfg (itr st) of
        Inl e \<Rightarrow> Inl e
      | Inr opts \<Rightarrow>
     (case eval_mode cfg (itr st) of
        Inl e \<Rightarrow> Inl e
      | Inr em \<Rightarrow>
     (case begin_iteration cfg env opts em st of
        Inl e \<Rightarrow> Inl e
      | Inr (st1, firsts) \<Rightarrow>
     (case collect cfg env em (st1, empty_buffers firsts) of
        Inl e \<Rightarrow> Inl e
      | Inr sb \<Rightarrow>
          (let (st2, m) = summarize cfg sb
           in case (if \<not> em then update cfg env st2 else Inr st2) of
                Inl e \<Rightarrow> Inl e
              | Inr st3 \<Rightarrow>
             (case checkpoint cfg env st3 of
                Inl e \<Rightarrow> Inl e
              | Inr st4 \<Rightarrow> log_metrics cfg env em m st4))))))"


text \<open>\<^verbatim>\<open>while self.itr < self.n_train_itr\<close>; an exception leaves the loop.\<close>

function run ::
  "config \<Rightarrow> ('o, 'a, 'w) collaborators \<Rightarrow> ('o, 'a, 'w) loop_state \<Rightarrow> error + ('o, 'a, 'w) loop_state" where
  "run cfg env st =
     (if itr st < n_train_itr cfg
      then (case run_iteration cfg env st of Inl e \<Rightarrow> Inl e | Inr st' \<Rightarrow> run cfg env st')
      else Inr st)"
  by pat_completeness auto


text \<open>The calls that compute a policy loss or take a gradient step.\<close>

fun is_update_call :: "('o, 'a) event \<Rightarrow> bool" where
  "is_update_call (ModelLoss samples_b obs_b rewards_b) = True"
| "is_update_call OptimizerStep = True"
| "is_update_call _ = False"

text \<open>The action batches handed to \<^verbatim>\<open>self.venv.step\<close>, in call order.\<close>

fun venv_step_args :: "('o, 'a) event \<Rightarrow> 'a list list list" where
  "venv_step_args (VenvStep action_venv) = [action_venv]"
| "venv_step_args _ = []"

definition venv_step_calls :: "('o, 'a) event list \<Rightarrow> 'a list list list" where
  "venv_step_calls tr = concat (map venv_step_args tr)"

subsection \<open>A small concrete instance\<close>

text \<open>
  One environment, three decision steps per iteration, chunks of two actions of which
  one is applied. The world is the number of environment steps taken so far; the
  environment reports done on its third step only, every reward is 0, and the
  shuffle reverses the index array.
\<close>

definition example_config :: config where
  "example_config =
     \<lparr> n_train_itr = 2, n_envs = 1, n_steps = 3, act_steps = 1, render_freq = 1,
       render_video = False, n_render = 0, val_freq = 2, force_train = False,
       reset_at_iteration = False, gamma = 1 / 2, beta = 1, max_reward_weight = 100,
       update_epochs = 1, batch_size = 2, max_grad_norm = None, save_model_freq = 1,
       log_freq = 2, best_reward_threshold_for_success = 1, use_wandb = False \<rparr>"

definition example_env :: "(nat, nat, nat) collaborators" where
  "example_env =
     \<lparr> reset_env_all = (\<lambda>opts w. ([0], w)),
       model_forward = (\<lambda>obs deterministic w. (map (\<lambda>ob. [ob, ob + 1]) obs, w)),
       venv_step = (\<lambda>action_venv w. (([w + 1], [0], [w = 2]), w + 1)),
       random_shuffle = (\<lambda>inds w. (rev inds, w)),
       model_loss = (\<lambda>samples_b obs_b rewards_b w. sum_list rewards_b),
       optimizer_update = (\<lambda>clip samples_b obs_b rewards_b w. w),
       lr_scheduler_step = (\<lambda>w. w),
       save_model = (\<lambda>w. w),
       timer = (\<lambda>w. (real w, w)) \<rparr>"

text \<open>
  The same configuration forced into training mode with a reset every iteration and
  two decision steps, so that no episode ends within the first iteration.
\<close>

definition example_train_config :: config where
  "example_train_config =
     example_config\<lparr>force_train := True, reset_at_iteration := True, n_steps := 2\<rparr>"

text \<open>The instance with only the force-train override set.\<close>

definition example_forced_config :: config where
  "example_forced_config = example_config\<lparr>force_train := True\<rparr>"

text \<open>The loop state after iteration 0 of the instance, an evaluation iteration.\<close>

definition example_after_eval :: "(nat, nat, nat) loop_state" where
  "example_after_eval =
     \<lparr> itr = 1,
       run_results = [[''itr'' \<mapsto> 0, ''eval_success_rate'' \<mapsto> 0, ''eval_episode_reward'' \<mapsto> 0,
                       ''eval_best_reward'' \<mapsto> 0, ''time'' \<mapsto> 3]],
       done_venv = [1], last_itr_eval = Some True, prev_obs_venv = Some [3],
       obs_trajs_split = Some [[0, 1, 2]],
       samples_trajs_split = Some [[[0, 1], [1, 2], [2, 3]]],
       returns_trajs_split = Some [0, 0, 0], loss = None, world = 3,
       result_file = Some [[''itr'' \<mapsto> 0, ''eval_success_rate'' \<mapsto> 0, ''eval_episode_reward'' \<mapsto> 0,
                            ''eval_best_reward'' \<mapsto> 0, ''time'' \<mapsto> 3]],
       trace = [ModelMode True, ResetEnvAll [None],
                ModelForward [0] True, VenvStep [[0]],
                ModelForward [1] True, VenvStep [[1]],
                ModelForward [2] True, VenvStep [[2]],
                LrSchedulerStep, SaveModel, LogInfo,
                PickleDump [[''itr'' \<mapsto> 0, ''eval_success_rate'' \<mapsto> 0, ''eval_episode_reward'' \<mapsto> 0,
                             ''eval_best_reward'' \<mapsto> 0, ''time'' \<mapsto> 3]]] \<rparr>"

text \<open>
  The loop state after iteration 1, a training iteration in which no episode ends:
  the events from \<open>ModelMode False\<close> on are this iteration's.
\<close>

definition example_after_train :: "(nat, nat, nat) loop_state" where
  "example_after_train =
     \<lparr> itr = 2,
       run_results = [[''itr'' \<mapsto> 0, ''eval_success_rate'' \<mapsto> 0, ''eval_episode_reward'' \<mapsto> 0,
                       ''eval_best_reward'' \<mapsto> 0, ''time'' \<mapsto> 3],
                      [''itr'' \<mapsto> 1]],
       done_venv = [0], last_itr_eval = Some False, prev_obs_venv = Some [6],
       obs_trajs_split = Some [[0, 1, 2]],
       samples_trajs_split = Some [[[0, 1], [1, 2], [2, 3]]],
       returns_trajs_split = Some [0, 0, 0], loss = Some 2, world = 6,
       result_file = Some [[''itr'' \<mapsto> 0, ''eval_success_rate'' \<mapsto> 0, ''eval_episode_reward'' \<mapsto> 0,
                            ''eval_best_reward'' \<mapsto> 0, ''time'' \<mapsto> 3]],
       trace = trace example_after_eval @
               [ModelMode False, ResetEnvAll [None],
                ModelForward [0] False, VenvStep [[0]],
                ModelForward [4] False, VenvStep [[4]],
                ModelForward [5] False, VenvStep [[5]],
                LogWarning,
                ModelLoss [[2, 3], [1, 2]] [2, 1] [1, 1], OptimizerStep,
                LrSchedulerStep, SaveModel] \<rparr>"

section \<open>Episode segmenter\<close>

lemma fold_segment_step:
  "fold (segment_step e idx) is acc =
     acc @ map (\<lambda>i. (e, idx ! i, idx ! (i + 1) - 1))
             (filter (\<lambda>i. idx ! (i + 1) - idx ! i > 1) is)"
  by (induction "is" arbitrary: acc) (simp_all add: segment_step_def Let_def)

lemma consecutive_pairs_nth:
  "consecutive_pairs xs = map (\<lambda>i. (xs ! i, xs ! (i + 1))) [0..<length xs - 1]"
  by (rule nth_equalityI) (simp_all add: consecutive_pairs_def nth_tl)

lemma segment_env_spec:
  "segment_env firsts e acc = acc @ spec_segments_env firsts e"
  by (simp add: segment_env_def spec_segments_env_def Let_def fold_segment_step
      consecutive_pairs_nth filter_map comp_def)

lemma fold_segment_env:
  "fold (segment_env firsts) es acc = acc @ concat (map (spec_segments_env firsts) es)"
  by (induction es arbitrary: acc) (simp_all add: segment_env_spec)

lemma episodes_start_end_spec: "episodes_start_end n firsts = spec_segments n firsts"
  by (simp add: episodes_start_end_def spec_segments_def fold_segment_env)

lemma consecutive_pairs_snoc:
  "consecutive_pairs (xs @ [a]) = consecutive_pairs xs @ (if xs = [] then [] else [(last xs, a)])"
proof (induction xs)
  case Nil
  then show ?case by (simp add: consecutive_pairs_def)
next
  case (Cons x xs)
  then show ?case by (cases xs) (auto simp: consecutive_pairs_def)
qed

lemma last_filter_upt:
  "(filter P [0..<n] \<noteq> [] \<and> last (filter P [0..<n]) = s) \<longleftrightarrow>
     (s < n \<and> P s \<and> (\<forall>k. s < k \<and> k < n \<longrightarrow> \<not> P k))"
proof (induction n)
  case 0
  then show ?case by simp
next
  case (Suc n)
  show ?case
  proof (cases "P n")
    case True
    then show ?thesis
      by (auto simp: less_Suc_eq)
  next
    case False
    then show ?thesis using Suc
      by (auto simp: less_Suc_eq)
  qed
qed

text \<open>
  Two marked indices are consecutive in the list of marked indices exactly when no
  index strictly between them is marked.
\<close>

lemma set_consecutive_pairs_filter:
  "(s, nx) \<in> set (consecutive_pairs (filter P [0..<n])) \<longleftrightarrow>
     s < nx \<and> nx < n \<and> P s \<and> P nx \<and> (\<forall>k. s < k \<and> k < nx \<longrightarrow> \<not> P k)"
proof (induction n)
  case 0
  then show ?case by (simp add: consecutive_pairs_def)
next
  case (Suc n)
  show ?case
  proof (cases "P n")
    case True
    have "(s, nx) \<in> set (consecutive_pairs (filter P [0..<Suc n])) \<longleftrightarrow>
          (s, nx) \<in> set (consecutive_pairs (filter P [0..<n])) \<or>
          (filter P [0..<n] \<noteq> [] \<and> last (filter P [0..<n]) = s \<and> nx = n)"
      using True by (auto simp: consecutive_pairs_snoc)
    also have "\<dots> \<longleftrightarrow> (s < nx \<and> nx < n \<and> P s \<and> P nx \<and> (\<forall>k. s < k \<and> k < nx \<longrightarrow> \<not> P k)) \<or>
          (s < n \<and> P s \<and> (\<forall>k. s < k \<and> k < n \<longrightarrow> \<not> P k) \<and> nx = n)"
      using Suc last_filter_upt [of P n s] by blast
    also have "\<dots> \<longleftrightarrow> s < nx \<and> nx < Suc n \<and> P s \<and> P nx \<and> (\<forall>k. s < k \<and> k < nx \<longrightarrow> \<not> P k)"
      using True by (auto simp: less_Suc_eq)
    finally show ?thesis .
  next
    case False
    then show ?thesis using Suc by (auto simp: less_Suc_eq)
  qed
qed


lemma set_spec_segments_env:
  "(env', s, e) \<in> set (spec_segments_env firsts env) \<longleftrightarrow>
     env' = env \<and> s < e \<and> e + 1 < length firsts \<and> firsts ! s ! env = 1 \<and>
     firsts ! (e + 1) ! env = 1 \<and> (\<forall>k. s < k \<and> k \<le> e \<longrightarrow> firsts ! k ! env \<noteq> 1)"
  (is "?L \<longleftrightarrow> ?R")
proof -
  let ?P = "\<lambda>i. column firsts env ! i = 1"
  have col: "\<And>i. i < length firsts \<Longrightarrow> column firsts env ! i = firsts ! i ! env"
    by (simp add: column_def)
  have "?L \<longleftrightarrow> env' = env \<and>
      (\<exists>nx. (s, nx) \<in> set (consecutive_pairs (filter ?P [0..<length firsts])) \<and>
            1 < nx - s \<and> e = nx - 1)"
    by (auto simp: spec_segments_env_def where_is_one_def column_def [of firsts env, THEN arg_cong [of _ _ length]])
  also have "\<dots> \<longleftrightarrow> env' = env \<and>
      (\<exists>nx. s < nx \<and> nx < length firsts \<and> ?P s \<and> ?P nx \<and> (\<forall>k. s < k \<and> k < nx \<longrightarrow> \<not> ?P k) \<and>
            1 < nx - s \<and> e = nx - 1)"
    by (simp only: set_consecutive_pairs_filter conj_assoc)
  also have "\<dots> \<longleftrightarrow> ?R"
  proof
    assume "env' = env \<and>
      (\<exists>nx. s < nx \<and> nx < length firsts \<and> ?P s \<and> ?P nx \<and> (\<forall>k. s < k \<and> k < nx \<longrightarrow> \<not> ?P k) \<and>
            1 < nx - s \<and> e = nx - 1)"
    then obtain nx where nx: "env' = env" "s < nx" "nx < length firsts" "?P s" "?P nx"
      "\<forall>k. s < k \<and> k < nx \<longrightarrow> \<not> ?P k" "1 < nx - s" "e = nx - 1" by blast
    then have e: "e + 1 = nx" by simp
    show ?R
      using nx col unfolding e by (auto simp: less_Suc_eq_le)
  next
    assume R: ?R
    then have "s < e + 1 \<and> e + 1 < length firsts \<and> ?P s \<and> ?P (e + 1) \<and>
       (\<forall>k. s < k \<and> k < e + 1 \<longrightarrow> \<not> ?P k) \<and> 1 < e + 1 - s \<and> e = e + 1 - 1"
      using col by auto
    with R show "env' = env \<and>
      (\<exists>nx. s < nx \<and> nx < length firsts \<and> ?P s \<and> ?P nx \<and> (\<forall>k. s < k \<and> k < nx \<longrightarrow> \<not> ?P k) \<and>
            1 < nx - s \<and> e = nx - 1)" by blast
  qed
  finally show ?thesis .
qed

lemma set_spec_segments:
  "(env, s, e) \<in> set (spec_segments n firsts) \<longleftrightarrow>
     env < n \<and> s < e \<and> e + 1 < length firsts \<and> firsts ! s ! env = 1 \<and>
     firsts ! (e + 1) ! env = 1 \<and> (\<forall>k. s < k \<and> k \<le> e \<longrightarrow> firsts ! k ! env \<noteq> 1)"
  by (auto simp: spec_segments_def set_spec_segments_env)

text \<open>
  C2. For a boundary matrix of \<open>h + 1\<close> rows and \<open>n\<close> columns the segmenter returns,
  environment by environment and in time order, the triple \<open>(env, start, next_start - 1)\<close>
  for every pair of consecutive marked indices that are more than one apart, and nothing
  else: a triple \<open>(env, s, e)\<close> is emitted exactly when \<open>s\<close> and \<open>e + 1\<close> are marked,
  \<open>s < e\<close>, and no index from \<open>s + 1\<close> to \<open>e\<close> is marked.
\<close>

theorem episode_segmenter_emits_exactly_the_marked_spans:
  assumes "has_shape firsts (h + 1) n"
  shows "episodes_start_end n firsts = spec_segments n firsts \<and>
         (\<forall>env s e. (env, s, e) \<in> set (episodes_start_end n firsts) \<longleftrightarrow>
            env < n \<and> s < e \<and> e < h \<and> firsts ! s ! env = 1 \<and> firsts ! (e + 1) ! env = 1 \<and>
            (\<forall>k. s < k \<and> k \<le> e \<longrightarrow> firsts ! k ! env \<noteq> 1))"
proof -
  have "length firsts = h + 1"
    using assms by (simp add: has_shape_def)
  then show ?thesis
    by (simp add: episodes_start_end_spec set_spec_segments)
qed

text \<open>
  The boundary vector \<open>[1,0,0,1,1,0,1]\<close> of one environment gives \<open>(0,0,2)\<close> and
  \<open>(0,4,5)\<close>; the span \<open>(0,3,3)\<close> between the adjacent markers 3 and 4 is left out.
\<close>

theorem episode_segmenter_example:
  "has_shape [[1], [0], [0], [1], [1], [0], [1::real]] (6 + 1) 1 \<and>
   episodes_start_end 1 [[1], [0], [0], [1], [1], [0], [1]] = [(0, 0, 2), (0, 4, 5)] \<and>
   (0, 3, 3) \<notin> set (episodes_start_end 1 [[1], [0], [0], [1], [1], [0], [1]])"
proof -
  have shape: "has_shape [[1], [0], [0], [1], [1], [0], [1::real]] (6 + 1) 1"
    by (simp add: has_shape_def)
  have "episodes_start_end 1 [[1], [0], [0], [1], [1], [0], [1]] =
        spec_segments 1 [[1], [0], [0], [1], [1], [0], [1]]"
    using episode_segmenter_emits_exactly_the_marked_spans [OF shape] by blast
  moreover have "spec_segments 1 [[1], [0], [0], [1], [1], [0], [1]] = [(0, 0, 2), (0, 4, 5)]"
    by code_simp
  ultimately show ?thesis
    using shape by simp
qed

section \<open>Return computer\<close>

lemma length_cumsum_from: "length (cumsum_from a xs) = length xs"
  by (induction xs arbitrary: a) simp_all

lemma cumsum_from_nth:
  "i < length xs \<Longrightarrow> cumsum_from a xs ! i = a + sum_list (take (Suc i) xs)"
proof (induction xs arbitrary: a i)
  case Nil
  then show ?case by simp
next
  case (Cons x xs)
  then show ?case by (cases i) (simp_all add: add.assoc)
qed

lemma length_reverse_cumsum: "length (reverse_cumsum y) = length y"
  by (simp add: reverse_cumsum_def cumsum_def length_cumsum_from)

lemma reverse_cumsum_nth:
  assumes "i < length y"
  shows "reverse_cumsum y ! i = sum_list (drop i y)"
proof -
  have "reverse_cumsum y ! i = cumsum_from 0 (rev y) ! (length y - Suc i)"
    using assms by (simp add: reverse_cumsum_def cumsum_def rev_nth length_cumsum_from)
  also have "\<dots> = sum_list (take (length y - i) (rev y))"
    using assms by (simp add: cumsum_from_nth Suc_diff_Suc)
  also have "\<dots> = sum_list (rev (drop i y))"
    using assms by (simp add: take_rev)
  finally show ?thesis by simp
qed

lemma sum_list_drop_sum:
  "sum_list (drop i (y::real list)) = (\<Sum>j = i..<length y. y ! j)"
proof -
  have "sum_list (drop i y) = (\<Sum>k<length y - i. drop i y ! k)"
    by (simp add: sum_list_sum_nth atLeast0LessThan)
  also have "\<dots> = (\<Sum>k<length y - i. y ! (i + k))"
    by (rule sum.cong) simp_all
  also have "\<dots> = (\<Sum>j = i..<length y. y ! j)"
    by (rule sum.reindex_bij_witness [where i = "\<lambda>j. j - i" and j = "\<lambda>k. i + k"]) auto
  finally show ?thesis .
qed

lemma length_discounted_rewards:
  "length (discounted_rewards g s e r) = min (e - s + 1) (length r)"
  by (simp add: discounted_rewards_def)

lemma discounted_rewards_nth:
  "i < length r \<Longrightarrow> i < e - s + 1 \<Longrightarrow> discounted_rewards g s e r ! i = g ^ i * r ! i"
  by (simp add: discounted_rewards_def del: upt_Suc)

lemma length_traj_slice: "length (traj_slice trajs env s e) \<le> e - s + 1"
  by (simp add: traj_slice_def column_def slice_def)

lemma episode_returns_spec:
  assumes "length r \<le> e - s + 1"
  shows "reverse_cumsum (discounted_rewards g s e r) = spec_returns g r"
proof (rule nth_equalityI)
  show "length (reverse_cumsum (discounted_rewards g s e r)) = length (spec_returns g r)"
    using assms by (simp add: length_reverse_cumsum length_discounted_rewards spec_returns_def)
next
  fix i assume "i < length (reverse_cumsum (discounted_rewards g s e r))"
  then have i: "i < length r"
    using assms by (simp add: length_reverse_cumsum length_discounted_rewards)
  have len: "length (discounted_rewards g s e r) = length r"
    using assms by (simp add: length_discounted_rewards)
  have "reverse_cumsum (discounted_rewards g s e r) ! i =
        (\<Sum>j = i..<length r. discounted_rewards g s e r ! j)"
    using i len by (simp add: reverse_cumsum_nth sum_list_drop_sum)
  also have "\<dots> = (\<Sum>j = i..<length r. g ^ j * r ! j)"
    using assms by (intro sum.cong refl discounted_rewards_nth) auto
  finally show "reverse_cumsum (discounted_rewards g s e r) ! i = spec_returns g r ! i"
    using i by (simp add: spec_returns_def)
qed

lemma returns_concat_spec:
  "returns_concat g rt segs =
     concat (map (\<lambda>(env, s, e). spec_returns g (traj_slice rt env s e)) segs)"
proof -
  have "map reverse_cumsum (discounted_reward_trajs_split g rt segs) =
        map (\<lambda>(env, s, e). spec_returns g (traj_slice rt env s e)) segs"
    unfolding discounted_reward_trajs_split_def map_map
    by (rule map_cong) (auto simp: episode_returns_spec [OF length_traj_slice])
  then show ?thesis
    by (simp add: returns_concat_def returns_split_def)
qed

text \<open>
  C3. For a segment with rewards \<open>r\<close>, discounted entry \<open>i\<close> is \<open>g ^ i * r\<^sub>i\<close> and return
  \<open>i\<close> is the sum of the discounted entries from \<open>i\<close> on. The flat return vector is the
  concatenation, segment by segment, of these sums over the segment's own rewards, so
  no return reaches across a segment boundary.
\<close>

theorem returns_are_reverse_cumulative_discounted_sums:
  "returns_concat g rt segs =
     concat (map (\<lambda>(env, s, e). spec_returns g (traj_slice rt env s e)) segs) \<and>
   (\<forall>i < length (traj_slice rt env s e).
      discounted_rewards g s e (traj_slice rt env s e) ! i = g ^ i * traj_slice rt env s e ! i \<and>
      reverse_cumsum (discounted_rewards g s e (traj_slice rt env s e)) ! i =
        (\<Sum>j = i..<length (traj_slice rt env s e). g ^ j * traj_slice rt env s e ! j))"
proof (intro conjI allI impI)
  show "returns_concat g rt segs =
     concat (map (\<lambda>(env, s, e). spec_returns g (traj_slice rt env s e)) segs)"
    by (rule returns_concat_spec)
next
  fix i assume i: "i < length (traj_slice rt env s e)"
  with length_traj_slice [of rt env s e] have "i < e - s + 1" by linarith
  with i show "discounted_rewards g s e (traj_slice rt env s e) ! i = g ^ i * traj_slice rt env s e ! i"
    by (rule discounted_rewards_nth)
  show "reverse_cumsum (discounted_rewards g s e (traj_slice rt env s e)) ! i =
        (\<Sum>j = i..<length (traj_slice rt env s e). g ^ j * traj_slice rt env s e ! j)"
    using i by (simp add: episode_returns_spec [OF length_traj_slice] spec_returns_def)
qed

text \<open>
  Rewards \<open>[1,1,1]\<close> with discount one half: discounted \<open>[1, 1/2, 1/4]\<close>, returns
  \<open>[7/4, 3/4, 1/4]\<close>.
\<close>

theorem returns_example:
  "discounted_rewards (1 / 2) 0 2 (traj_slice [[1], [1], [1]] 0 0 2) = [1, 1 / 2, 1 / 4] \<and>
   returns_concat (1 / 2) [[1], [1], [1]] [(0, 0, 2)] = [7 / 4, 3 / 4, 1 / 4]"
proof -
  have slice: "traj_slice [[1], [1], [1::real]] 0 0 2 = [1, 1, 1]"
    by code_simp
  have "spec_returns (1 / 2) [1, 1, 1] = [7 / 4, 3 / 4, 1 / 4]"
    by code_simp
  then have "returns_concat (1 / 2) [[1], [1], [1]] [(0, 0, 2)] = [7 / 4, 3 / 4, 1 / 4]"
    using returns_are_reverse_cumulative_discounted_sums [of "1 / 2" "[[1], [1], [1]]" "[(0, 0, 2)]" 0 0 2]
    by (simp add: slice)
  moreover have "discounted_rewards (1 / 2) 0 2 [1, 1, 1] = [1, 1 / 2, 1 / 4]"
    by code_simp
  ultimately show ?thesis
    by (simp add: slice)
qed

section \<open>Reward weighter\<close>

lemma sum_list_map_nth:
  "sum_list (map f xs) = (\<Sum>i<length xs. f (xs ! i))"
proof -
  have "sum_list (map f xs) = (\<Sum>i<length (map f xs). map f xs ! i)"
    by (simp only: sum_list_sum_nth atLeast0LessThan)
  then show ?thesis by simp
qed

lemma np_mean_spec: "np_mean xs = spec_mean xs"
  using sum_list_map_nth [of "\<lambda>x. x" xs] by (simp add: np_mean_def spec_mean_def)

lemma np_std_spec: "np_std xs = spec_std xs"
  by (simp add: np_std_def spec_std_def np_mean_def [of "map f xs" for f]
      sum_list_map_nth flip: np_mean_spec)

lemma reward_weights_spec: "reward_weights b m xs = spec_weights b m xs"
  by (simp add: reward_weights_def rewards_k_scaled_def normalize_returns_def
      norm_denominator_def spec_weights_def np_mean_spec np_std_spec)

lemma np_std_nonneg: "0 \<le> np_std xs"
proof -
  have "0 \<le> sum_list (map (\<lambda>x. (x - np_mean xs)\<^sup>2) xs)"
    by (rule sum_list_nonneg) auto
  then show ?thesis
    by (simp add: np_std_def np_mean_def [of "map f xs" for f])
qed

lemma norm_denominator_pos: "0 < norm_denominator xs"
  using np_std_nonneg [of xs] by (simp add: norm_denominator_def)

lemma length_reward_weights: "length (reward_weights b m xs) = length xs"
  by (simp add: reward_weights_def rewards_k_scaled_def normalize_returns_def)

lemma reward_weights_nth:
  "i < length xs \<Longrightarrow>
   reward_weights b m xs ! i = min (exp (b * ((xs ! i - np_mean xs) / norm_denominator xs))) m"
  by (simp add: reward_weights_def rewards_k_scaled_def normalize_returns_def)

lemma reward_weights_le: "w \<in> set (reward_weights b m xs) \<Longrightarrow> w \<le> m"
  by (auto simp: reward_weights_def rewards_k_scaled_def)

lemma reward_weights_max:
  assumes "0 < b" "0 < m" "i < length xs"
    and far: "ln m / b * norm_denominator xs \<le> xs ! i - np_mean xs"
  shows "reward_weights b m xs ! i = m"
proof -
  have "ln m / b \<le> (xs ! i - np_mean xs) / norm_denominator xs"
    using far norm_denominator_pos [of xs] by (simp add: pos_le_divide_eq)
  then have "ln m \<le> b * ((xs ! i - np_mean xs) / norm_denominator xs)"
    using \<open>0 < b\<close> by (simp add: pos_divide_le_eq mult.commute)
  then have "exp (ln m) \<le> exp (b * ((xs ! i - np_mean xs) / norm_denominator xs))"
    by (simp only: exp_le_cancel_iff)
  then have "m \<le> exp (b * ((xs ! i - np_mean xs) / norm_denominator xs))"
    using \<open>0 < m\<close> by (simp only: exp_ln)
  then show ?thesis
    using assms(3) by (simp add: reward_weights_nth)
qed

lemma reward_weights_pos: "0 < m \<Longrightarrow> w \<in> set (reward_weights b m xs) \<Longrightarrow> 0 < w"
  by (auto simp: reward_weights_def rewards_k_scaled_def)

lemma np_mean_all_equal:
  assumes "\<forall>x \<in> set xs. x = c" and "xs \<noteq> []"
  shows "np_mean xs = c"
proof -
  have "xs = replicate (length xs) c"
    using assms(1) by (simp add: replicate_length_same)
  then have "sum_list xs = real (length xs) * c"
    by (metis sum_list_replicate)
  then show ?thesis
    using assms(2) by (simp add: np_mean_def)
qed

lemma reward_weights_all_equal:
  assumes "\<forall>x \<in> set xs. x = c"
  shows "reward_weights b m xs = replicate (length xs) (min 1 m)"
proof (cases "xs = []")
  case True
  then show ?thesis
    by (simp add: reward_weights_def rewards_k_scaled_def normalize_returns_def)
next
  case False
  have "map (\<lambda>x. min (exp (b * ((x - np_mean xs) / norm_denominator xs))) m) xs =
        map (\<lambda>x. min 1 m) xs"
    using assms np_mean_all_equal [OF assms False] by (intro map_cong) simp_all
  then show ?thesis
    by (simp add: reward_weights_def rewards_k_scaled_def normalize_returns_def comp_def
        map_replicate_const)
qed

lemma reward_weights_zeros:
  "reward_weights b m [0, 0, 0] = [min 1 m, min 1 m, min 1 m]"
  by (simp add: np_mean_def np_std_def norm_denominator_def reward_weights_def
      rewards_k_scaled_def normalize_returns_def)

text \<open>
  C5. The denominator of the normalisation is the population standard deviation, which
  is never negative, plus one thousandth, so it is positive for every return vector,
  the all-equal ones included. Every weight is at most the configured maximum (and
  positive when the maximum is), and a return whose distance above the mean is at
  least \<open>ln max / beta\<close> denominators gets exactly the maximum. For all-equal returns
  such as \<open>[0,0,0]\<close> every weight is \<open>min 1 max\<close>.
\<close>

theorem weights_guarded_and_clamped:
  "0 \<le> np_std xs \<and> norm_denominator xs = np_std xs + 1 / 1000 \<and> 0 < norm_denominator xs \<and>
   (\<forall>w \<in> set (reward_weights b m xs). w \<le> m) \<and>
   (0 < m \<longrightarrow> (\<forall>w \<in> set (reward_weights b m xs). 0 < w)) \<and>
   ((\<forall>x \<in> set xs. x = c) \<longrightarrow> reward_weights b m xs = replicate (length xs) (min 1 m)) \<and>
   (0 < b \<and> 0 < m \<longrightarrow>
      (\<forall>i < length xs. ln m / b * norm_denominator xs \<le> xs ! i - np_mean xs \<longrightarrow>
         reward_weights b m xs ! i = m)) \<and>
   norm_denominator [0, 0, 0] = 1 / 1000 \<and>
   reward_weights b m [0, 0, 0] = [min 1 m, min 1 m, min 1 m]"
proof -
  have "norm_denominator [0, 0, 0] = 1 / 1000"
    by (simp add: norm_denominator_def np_std_def np_mean_def)
  then show ?thesis
    using np_std_nonneg [of xs] norm_denominator_pos [of xs] reward_weights_le [of _ b m xs]
      reward_weights_max [of b m _ xs] reward_weights_zeros [of b m]
      reward_weights_pos [of m _ b xs] reward_weights_all_equal [of xs c b m]
    by (auto simp: norm_denominator_def)
qed

text \<open>
  With \<open>beta = 1\<close> and maximum weight 1 the larger of the two returns \<open>[0, 1]\<close> is
  clamped to exactly 1; for \<open>[0,0,0]\<close> the denominator is positive and, with maximum 100,
  every weight is 1.
\<close>

theorem weights_guarded_and_clamped_witness:
  "(0::real) < 1 \<and> (1::nat) < length [0, 1::real] \<and>
   ln 1 / 1 * norm_denominator [0, 1] \<le> [0, 1] ! 1 - np_mean [0, 1] \<and>
   reward_weights 1 1 [0, 1] ! 1 = 1 \<and>
   0 < norm_denominator [0, 0, 0] \<and>
   reward_weights 1 100 [0, 0, 0] = [1, 1, 1]"
proof -
  have far: "ln 1 / 1 * norm_denominator [0, 1] \<le> [0, 1] ! 1 - np_mean [0, 1]"
    by (simp add: np_mean_def)
  have "reward_weights 1 1 [0, 1] ! 1 = 1"
    using weights_guarded_and_clamped [of "[0, 1]" 1 1 0] far by simp
  moreover have "0 < norm_denominator [0, 0, 0] \<and> reward_weights 1 100 [0, 0, 0] = [1, 1, 1]"
    using weights_guarded_and_clamped [of "[0, 0, 0]" 1 100 0] by simp
  ultimately show ?thesis
    using far by simp
qed

section \<open>Frame properties of the phases of an iteration\<close>

lemma for_each_rule:
  assumes "for_each body xs s = Inr s'"
    and "I s"
    and "\<And>x t t'. x \<in> set xs \<Longrightarrow> I t \<Longrightarrow> body x t = Inr t' \<Longrightarrow> I t'"
  shows "I s'"
  using assms
proof (induction xs arbitrary: s)
  case Nil
  then show ?case by simp
next
  case (Cons x xs)
  from Cons.prems(1) obtain t where t: "body x s = Inr t" "for_each body xs t = Inr s'"
    by (auto split: sum.splits)
  have "I t"
    using Cons.prems(3) [of x s t] Cons.prems(2) t(1) by simp
  show ?case
  proof (rule Cons.IH [OF t(2) \<open>I t\<close>])
    fix y u u'
    assume "y \<in> set xs" "I u" "body y u = Inr u'"
    then show "I u'"
      using Cons.prems(3) [of y u u'] by simp
  qed
qed

lemma for_each_total:
  assumes "I s"
    and "\<And>x t. x \<in> set xs \<Longrightarrow> I t \<Longrightarrow> \<exists>t'. body x t = Inr t' \<and> I t'"
  shows "\<exists>s'. for_each body xs s = Inr s' \<and> I s'"
  using assms
proof (induction xs arbitrary: s)
  case Nil
  then show ?case by simp
next
  case (Cons x xs)
  from Cons.prems obtain t where t: "body x s = Inr t" "I t"
    by (meson list.set_intros(1))
  have "\<exists>s'. for_each body xs t = Inr s' \<and> I s'"
  proof (rule Cons.IH [OF t(2)])
    fix y u
    assume "y \<in> set xs" "I u"
    then show "\<exists>t'. body y u = Inr t' \<and> I t'"
      using Cons.prems(2) [of y u] by simp
  qed
  then show ?case
    using t(1) by simp
qed

lemma begin_iteration_frame:
  assumes "begin_iteration cfg env opts em st = Inr (st1, firsts)"
  shows "itr st1 = itr st \<and> run_results st1 = run_results st \<and> result_file st1 = result_file st \<and>
         loss st1 = loss st \<and> obs_trajs_split st1 = obs_trajs_split st \<and>
         samples_trajs_split st1 = samples_trajs_split st \<and>
         returns_trajs_split st1 = returns_trajs_split st \<and>
         filter is_update_call (trace st1) = filter is_update_call (trace st)"
  using assms
  by (auto simp: begin_iteration_def Let_def split: sum.splits bool.splits prod.splits)

lemma collect_step_frame:
  assumes "collect_step cfg env em step (st, buf) = Inr (st', buf')"
  shows "itr st' = itr st \<and> run_results st' = run_results st \<and> result_file st' = result_file st \<and>
         loss st' = loss st \<and> obs_trajs_split st' = obs_trajs_split st \<and>
         samples_trajs_split st' = samples_trajs_split st \<and>
         returns_trajs_split st' = returns_trajs_split st \<and>
         filter is_update_call (trace st') = filter is_update_call (trace st)"
  using assms
  by (auto simp: collect_step_def Let_def split: option.splits prod.splits)

lemma collect_frame:
  assumes "collect cfg env em (st, buf) = Inr (st', buf')"
  shows "itr st' = itr st \<and> run_results st' = run_results st \<and> result_file st' = result_file st \<and>
         loss st' = loss st \<and> obs_trajs_split st' = obs_trajs_split st \<and>
         samples_trajs_split st' = samples_trajs_split st \<and>
         returns_trajs_split st' = returns_trajs_split st \<and>
         filter is_update_call (trace st') = filter is_update_call (trace st)"
proof -
  let ?I = "\<lambda>sb. itr (fst sb) = itr st \<and> run_results (fst sb) = run_results st \<and>
         result_file (fst sb) = result_file st \<and>
         loss (fst sb) = loss st \<and> obs_trajs_split (fst sb) = obs_trajs_split st \<and>
         samples_trajs_split (fst sb) = samples_trajs_split st \<and>
         returns_trajs_split (fst sb) = returns_trajs_split st \<and>
         filter is_update_call (trace (fst sb)) = filter is_update_call (trace st)"
  have "?I (st', buf')"
  proof (rule for_each_rule [where I = ?I, OF assms [unfolded collect_def]])
    show "?I (st, buf)" by simp
  next
    fix x t t'
    assume "?I t" and "collect_step cfg env em x t = Inr t'"
    then show "?I t'"
      using collect_step_frame [of cfg env em x "fst t" "snd t" "fst t'" "snd t'"] by simp
  qed
  then show ?thesis by simp
qed

lemma summarize_frame:
  assumes "summarize cfg (st, buf) = (st', m)"
  shows "itr st' = itr st \<and> run_results st' = run_results st \<and> result_file st' = result_file st \<and>
         loss st' = loss st \<and> world st' = world st \<and>
         filter is_update_call (trace st') = filter is_update_call (trace st)"
  using assms
  by (auto simp: summarize_def Let_def split: if_splits)

lemma update_batch_frame:
  assumes "update_batch cfg env obs_k samples_k weights inds_k batch st = Inr st'"
  shows "itr st' = itr st \<and> run_results st' = run_results st \<and> result_file st' = result_file st"
  using assms
  by (auto simp: update_batch_def Let_def split: sum.splits)

lemma update_epoch_frame:
  assumes "update_epoch cfg env obs_k samples_k weights epoch (st, inds) = Inr (st', inds')"
  shows "itr st' = itr st \<and> run_results st' = run_results st \<and> result_file st' = result_file st"
proof -
  obtain shuffled w where sh: "random_shuffle env inds (world st) = (shuffled, w)"
    by (cases "random_shuffle env inds (world st)")
  from assms sh obtain nb where
    fe: "for_each (update_batch cfg env obs_k samples_k weights shuffled) [0..<nb] (st\<lparr>world := w\<rparr>) = Inr st'"
    by (auto simp: update_epoch_def split: sum.splits)
  let ?I = "\<lambda>t. itr t = itr st \<and> run_results t = run_results st \<and> result_file t = result_file st"
  show ?thesis
    by (rule for_each_rule [where I = ?I, OF fe]) (auto dest: update_batch_frame)
qed

lemma update_frame:
  assumes "update cfg env st = Inr st'"
  shows "itr st' = itr st \<and> run_results st' = run_results st \<and> result_file st' = result_file st"
proof -
  from assms obtain obs_k samples_k weights rk inds where
    fe: "for_each (update_epoch cfg env obs_k samples_k weights) [0..<update_epochs cfg]
           (st\<lparr>returns_trajs_split := Some rk\<rparr>, [0..<length weights]) = Inr (st', inds)"
    by (auto simp: update_def Let_def split: option.splits sum.splits prod.splits)
  let ?I = "\<lambda>si. itr (fst si) = itr st \<and> run_results (fst si) = run_results st \<and>
                 result_file (fst si) = result_file st"
  have "?I (st', inds)"
  proof (rule for_each_rule [where I = ?I, OF fe])
    show "?I (st\<lparr>returns_trajs_split := Some rk\<rparr>, [0..<length weights])" by simp
  next
    fix x t t'
    assume "?I t" and "update_epoch cfg env obs_k samples_k weights x t = Inr t'"
    then show "?I t'"
      using update_epoch_frame [of cfg env obs_k samples_k weights x "fst t" "snd t" "fst t'" "snd t'"]
      by simp
  qed
  then show ?thesis by simp
qed

lemma checkpoint_frame:
  assumes "checkpoint cfg env st = Inr st'"
  shows "itr st' = itr st \<and> run_results st' = run_results st \<and> result_file st' = result_file st \<and>
         loss st' = loss st \<and>
         filter is_update_call (trace st') = filter is_update_call (trace st)"
  using assms
  by (auto simp: checkpoint_def Let_def split: if_splits)

lemma log_metrics_itr:
  assumes "log_metrics cfg env em m st = Inr st'"
  shows "itr st' = itr st + 1"
  using assms
  by (auto simp: log_metrics_def Let_def split: if_splits sum.splits option.splits prod.splits)

text \<open>The pieces of a successful iteration.\<close>

lemma run_iteration_InrE:
  assumes "run_iteration cfg env st = Inr st'"
  obtains opts em st1 firsts st2 buf st3 m st4 st5 where
    "options_venv cfg (itr st) = Inr opts"
    "eval_mode cfg (itr st) = Inr em"
    "begin_iteration cfg env opts em st = Inr (st1, firsts)"
    "collect cfg env em (st1, empty_buffers firsts) = Inr (st2, buf)"
    "summarize cfg (st2, buf) = (st3, m)"
    "(if \<not> em then update cfg env st3 else Inr st3) = Inr st4"
    "checkpoint cfg env st4 = Inr st5"
    "log_metrics cfg env em m st5 = Inr st'"
proof -
  from assms obtain opts where 1: "options_venv cfg (itr st) = Inr opts"
    by (auto simp: run_iteration_def split: sum.splits)
  from assms 1 obtain em where 2: "eval_mode cfg (itr st) = Inr em"
    by (auto simp: run_iteration_def split: sum.splits)
  from assms 1 2 obtain st1 firsts where 3: "begin_iteration cfg env opts em st = Inr (st1, firsts)"
    by (auto simp: run_iteration_def split: sum.splits)
  from assms 1 2 3 obtain st2 buf where 4: "collect cfg env em (st1, empty_buffers firsts) = Inr (st2, buf)"
    by (auto simp: run_iteration_def split: sum.splits)
  obtain st3 m where 5: "summarize cfg (st2, buf) = (st3, m)"
    by (cases "summarize cfg (st2, buf)")
  from assms 1 2 3 4 5 obtain st4 where 6: "(if \<not> em then update cfg env st3 else Inr st3) = Inr st4"
    by (auto simp: run_iteration_def split: sum.splits)
  from assms 1 2 3 4 5 6 obtain st5 where 7: "checkpoint cfg env st4 = Inr st5"
    by (auto simp: run_iteration_def split: sum.splits if_splits)
  from assms 1 2 3 4 5 6 7 have 8: "log_metrics cfg env em m st5 = Inr st'"
    by (auto simp: run_iteration_def split: sum.splits if_splits)
  from 1 2 3 4 5 6 7 8 show thesis by (rule that)
qed

lemma run_iteration_itr:
  assumes "run_iteration cfg env st = Inr st'"
  shows "itr st' = itr st + 1"
proof -
  from assms obtain opts em st1 firsts st2 buf st3 m st4 st5 where
    b: "begin_iteration cfg env opts em st = Inr (st1, firsts)" and
    c: "collect cfg env em (st1, empty_buffers firsts) = Inr (st2, buf)" and
    s: "summarize cfg (st2, buf) = (st3, m)" and
    u: "(if \<not> em then update cfg env st3 else Inr st3) = Inr st4" and
    k: "checkpoint cfg env st4 = Inr st5" and
    l: "log_metrics cfg env em m st5 = Inr st'"
    by (rule run_iteration_InrE)
  have "itr st4 = itr st3"
    using u update_frame [of cfg env st3 st4] by (auto split: if_splits)
  then show ?thesis
    using begin_iteration_frame [OF b] collect_frame [OF c] summarize_frame [OF s]
      checkpoint_frame [OF k] log_metrics_itr [OF l] by simp
qed

text \<open>Every successful iteration advances the counter, so the \<^verbatim>\<open>while\<close> loop ends.\<close>

termination run
  by (relation "measure (\<lambda>(cfg, env, st). nat (n_train_itr cfg - itr st))")
    (auto dest!: run_iteration_itr)

declare run.simps [simp del]

section \<open>Mode selection and the evaluation iteration\<close>

lemma collect_step_total:
  assumes "prev_obs_venv st \<noteq> None"
  shows "\<exists>st' buf'. collect_step cfg env em step (st, buf) = Inr (st', buf') \<and> prev_obs_venv st' \<noteq> None"
  using assms
  by (auto simp: collect_step_def Let_def split: option.splits prod.splits)

lemma collect_total:
  fixes st :: "('o, 'a, 'w) loop_state" and buf :: "('o, 'a) buffers"
  assumes "prev_obs_venv st \<noteq> None"
  shows "\<exists>st' buf'. collect cfg env em (st, buf) = Inr (st', buf')"
proof -
  let ?I = "\<lambda>sb :: ('o, 'a, 'w) loop_state \<times> ('o, 'a) buffers. prev_obs_venv (fst sb) \<noteq> None"
  have "\<exists>s'. for_each (collect_step cfg env em) [0..<n_steps cfg] (st, buf) = Inr s' \<and> ?I s'"
  proof (rule for_each_total [where I = ?I])
    show "?I (st, buf)" using assms by simp
  next
    fix x t assume "?I t"
    then show "\<exists>t'. collect_step cfg env em x t = Inr t' \<and> ?I t'"
      using collect_step_total [of "fst t" cfg env em x "snd t"] by auto
  qed
  then show ?thesis
    by (auto simp: collect_def)
qed

lemma begin_iteration_eval:
  "\<exists>st1 firsts. begin_iteration cfg env opts True st = Inr (st1, firsts) \<and> prev_obs_venv st1 \<noteq> None"
  by (auto simp: begin_iteration_def reset_condition_def Let_def split: prod.splits)

lemma checkpoint_total:
  "save_model_freq cfg \<noteq> 0 \<Longrightarrow> \<exists>st'. checkpoint cfg env st = Inr st'"
  by (simp add: checkpoint_def Let_def)

lemma log_metrics_eval_total:
  "log_freq cfg \<noteq> 0 \<Longrightarrow> \<exists>st'. log_metrics cfg env True m st = Inr st'"
  by (auto simp: log_metrics_def Let_def split: prod.splits)

lemma log_metrics_update_calls:
  assumes "log_metrics cfg env em m st = Inr st'"
  shows "filter is_update_call (trace st') = filter is_update_call (trace st)"
  using assms
  by (auto simp: log_metrics_def Let_def wandb_events_def
      split: if_splits sum.splits option.splits prod.splits)

lemma run_iteration_eval_total:
  assumes "options_venv cfg (itr st) = Inr opts" and "eval_mode cfg (itr st) = Inr True"
    and "save_model_freq cfg \<noteq> 0" and "log_freq cfg \<noteq> 0"
  shows "\<exists>st'. run_iteration cfg env st = Inr st'"
proof -
  obtain st1 firsts where b: "begin_iteration cfg env opts True st = Inr (st1, firsts)"
      "prev_obs_venv st1 \<noteq> None"
    using begin_iteration_eval by blast
  obtain st2 buf where c: "collect cfg env True (st1, empty_buffers firsts) = Inr (st2, buf)"
    using collect_total [OF b(2)] by blast
  obtain st3 m where s: "summarize cfg (st2, buf) = (st3, m)"
    by (cases "summarize cfg (st2, buf)")
  obtain st4 where k: "checkpoint cfg env st3 = Inr st4"
    using checkpoint_total [OF assms(3)] by blast
  obtain st5 where l: "log_metrics cfg env True m st4 = Inr st5"
    using log_metrics_eval_total [OF assms(4)] by blast
  show ?thesis
    using assms(1,2) b(1) c s k l by (simp add: run_iteration_def)
qed

lemma run_iteration_eval_no_update:
  assumes "run_iteration cfg env st = Inr st'" and "eval_mode cfg (itr st) = Inr True"
  shows "filter is_update_call (trace st') = filter is_update_call (trace st)"
proof -
  from assms(1) obtain opts em st1 firsts st2 buf st3 m st4 st5 where
    e: "eval_mode cfg (itr st) = Inr em" and
    b: "begin_iteration cfg env opts em st = Inr (st1, firsts)" and
    c: "collect cfg env em (st1, empty_buffers firsts) = Inr (st2, buf)" and
    s: "summarize cfg (st2, buf) = (st3, m)" and
    u: "(if \<not> em then update cfg env st3 else Inr st3) = Inr st4" and
    k: "checkpoint cfg env st4 = Inr st5" and
    l: "log_metrics cfg env em m st5 = Inr st'"
    by (rule run_iteration_InrE)
  from e assms(2) have "em" by simp
  with u have "st4 = st3" by simp
  then show ?thesis
    using begin_iteration_frame [OF b] collect_frame [OF c] summarize_frame [OF s]
      checkpoint_frame [OF k] log_metrics_update_calls [OF l] by simp
qed

text \<open>
  C7. With a non-zero evaluation frequency the mode flag is true exactly when the
  counter is a multiple of the frequency and the force-train override is unset. An
  iteration in evaluation mode completes (given non-zero checkpoint and logging
  frequencies and valid render options) and adds no policy-loss call and no optimiser
  step to the trace, whatever the rollout and the segmenter produced.
\<close>

theorem eval_mode_iteration_makes_no_update:
  assumes "val_freq cfg \<noteq> 0"
  shows "eval_mode cfg (itr st) = Inr (itr st mod val_freq cfg = 0 \<and> \<not> force_train cfg) \<and>
         (itr st mod val_freq cfg = 0 \<and> \<not> force_train cfg \<longrightarrow>
            (\<forall>st'. run_iteration cfg env st = Inr st' \<longrightarrow>
               filter is_update_call (trace st') = filter is_update_call (trace st)) \<and>
            (render_freq cfg \<noteq> 0 \<and> n_render cfg \<le> n_envs cfg \<and> save_model_freq cfg \<noteq> 0 \<and>
             log_freq cfg \<noteq> 0 \<longrightarrow> (\<exists>st'. run_iteration cfg env st = Inr st')))"
proof -
  have em: "eval_mode cfg (itr st) = Inr (itr st mod val_freq cfg = 0 \<and> \<not> force_train cfg)"
    using assms by (simp add: eval_mode_def)
  have "\<exists>opts. options_venv cfg (itr st) = Inr opts"
    if "render_freq cfg \<noteq> 0" "n_render cfg \<le> n_envs cfg"
    using that by (simp add: options_venv_def)
  then show ?thesis
    using em run_iteration_eval_no_update [of cfg env st] run_iteration_eval_total [of cfg st _ env]
    by auto
qed

section \<open>The concrete instance, evaluated\<close>

lemmas phase_defs = run_iteration_def options_venv_def eval_mode_def begin_iteration_def
  reset_condition_def collect_def collect_step_def summarize_def update_def checkpoint_def
  log_metrics_def initial_state_def empty_buffers_def update_epoch_def update_batch_def
  num_batch_def inds_b_def slice_def gather_def wandb_events_def eval_record_def train_record_def
  traj_slice_def column_def

lemma example_segments:
  "episodes_start_end (Suc 0) [[1], [0], [0], [1]] = [(0, 0, 2)]"
  "episodes_start_end (Suc 0) [[1], [0], [0], [0]] = []"
  "episodes_start_end (Suc 0) [[1], [0], [0]] = []"
  by code_simp+

lemma three_div_two: "Suc (Suc (Suc 0)) div Suc (Suc 0) = Suc 0"
  by code_simp

lemma example_iteration_0:
  "run_iteration example_config example_env (initial_state example_config 0 0) = Inr example_after_eval"
  by (simp add: phase_defs example_config_def example_env_def Let_def numeral_2_eq_2 numeral_3_eq_3
      example_segments returns_concat_def returns_split_def discounted_reward_trajs_split_def
      discounted_rewards_def reverse_cumsum_def cumsum_def np_mean_def np_max_def
      example_after_eval_def)

lemma example_iteration_1:
  "run_iteration example_config example_env example_after_eval = Inr example_after_train"
  by (simp add: phase_defs example_config_def example_env_def Let_def numeral_2_eq_2 numeral_3_eq_3
      example_segments three_div_two example_after_eval_def example_after_train_def
      normalize_returns_def np_mean_def np_std_def norm_denominator_def rewards_k_scaled_def
      eval_nat_numeral)

lemma example_run:
  "run example_config example_env (initial_state example_config 0 0) = Inr example_after_train"
proof -
  have "run example_config example_env example_after_train = Inr example_after_train"
    by (subst run.simps) (simp add: example_config_def example_after_train_def)
  then have "run example_config example_env example_after_eval = Inr example_after_train"
    by (subst run.simps) (simp add: example_iteration_1, simp add: example_config_def example_after_eval_def)
  then show ?thesis
    by (subst run.simps) (simp add: example_iteration_0, simp add: example_config_def initial_state_def)
qed

lemma example_train_iteration:
  "run_iteration example_train_config example_env (initial_state example_train_config 0 0) =
     Inl (UnboundLocalError ''obs_trajs_split'')"
  by (simp add: phase_defs example_train_config_def example_config_def example_env_def Let_def
      numeral_2_eq_2 example_segments)

text \<open>
  In the instance the counter 0 is a multiple of the evaluation frequency 2 and the
  override is unset: the iteration completes and its trace holds no update call.
\<close>

theorem eval_mode_iteration_makes_no_update_witness:
  "val_freq example_config \<noteq> 0 \<and>
   itr (initial_state example_config 0 (0::nat) :: (nat, nat, nat) loop_state) mod val_freq example_config = 0 \<and>
   \<not> force_train example_config \<and>
   eval_mode example_config 0 = Inr True \<and>
   (\<exists>st'. run_iteration example_config example_env (initial_state example_config 0 0) = Inr st' \<and>
          filter is_update_call (trace st') = [])"
proof -
  let ?st = "initial_state example_config 0 (0::nat) :: (nat, nat, nat) loop_state"
  have vf: "val_freq example_config \<noteq> 0"
    by (simp add: example_config_def)
  have ev: "itr ?st mod val_freq example_config = 0 \<and> \<not> force_train example_config"
    by (simp add: example_config_def initial_state_def)
  have fr: "render_freq example_config \<noteq> 0 \<and> n_render example_config \<le> n_envs example_config \<and>
            save_model_freq example_config \<noteq> 0 \<and> log_freq example_config \<noteq> 0"
    by (simp add: example_config_def)
  have tr: "filter is_update_call (trace ?st) = []"
    by (simp add: initial_state_def)
  have it: "itr ?st = 0"
    by (simp add: initial_state_def)
  from eval_mode_iteration_makes_no_update [OF vf, of ?st example_env] ev fr tr it
  show ?thesis
    using vf by auto
qed

section \<open>Rollout collection\<close>

lemma venv_step_calls_append:
  "venv_step_calls (xs @ ys) = venv_step_calls xs @ venv_step_calls ys"
  by (simp add: venv_step_calls_def)

lemma collect_step_Inr:
  assumes "collect_step cfg env em step (st, buf) = Inr (st', buf')"
  shows "\<exists>prev. prev_obs_venv st = Some prev \<and>
           samples_trajs buf' = samples_trajs buf @ [fst (model_forward env prev em (world st))] \<and>
           trace st' = trace st @
             [ModelForward prev em,
              VenvStep (map (take (act_steps cfg)) (fst (model_forward env prev em (world st))))]"
  using assms
  by (auto simp: collect_step_def Let_def split: option.splits prod.splits)

lemma collect_loop_samples:
  fixes st :: "('o, 'a, 'w) loop_state" and buf :: "('o, 'a) buffers"
  assumes "for_each (collect_step cfg env em) steps (st, buf) = Inr (st', buf')"
  shows "length (samples_trajs buf') = length (samples_trajs buf) + length steps \<and>
         take (length (samples_trajs buf)) (samples_trajs buf') = samples_trajs buf \<and>
         venv_step_calls (trace st') =
           venv_step_calls (trace st) @
           map (map (take (act_steps cfg))) (drop (length (samples_trajs buf)) (samples_trajs buf'))"
  using assms
proof (induction steps arbitrary: st buf)
  case Nil
  then show ?case by simp
next
  case (Cons step steps)
  from Cons.prems obtain st1 buf1 where
    s1: "collect_step cfg env em step (st, buf) = Inr (st1, buf1)" and
    rest: "for_each (collect_step cfg env em) steps (st1, buf1) = Inr (st', buf')"
    by (auto split: sum.splits)
  from collect_step_Inr [OF s1] obtain samples where
    b1: "samples_trajs buf1 = samples_trajs buf @ [samples]" and
    t1: "trace st1 = trace st @ [ModelForward (the (prev_obs_venv st)) em,
                                  VenvStep (map (take (act_steps cfg)) samples)]"
    by auto
  note ih = Cons.IH [OF rest]
  let ?n = "length (samples_trajs buf)"
  have len: "length (samples_trajs buf') = ?n + length (step # steps)"
    using ih b1 by simp
  have tk: "take (Suc ?n) (samples_trajs buf') = samples_trajs buf @ [samples]"
    using ih b1 by simp
  have tk0: "take ?n (samples_trajs buf') = samples_trajs buf"
  proof -
    have "take ?n (take (Suc ?n) (samples_trajs buf')) = samples_trajs buf"
      by (simp only: tk) simp
    then show ?thesis by (simp add: min_def)
  qed
  have "drop ?n (samples_trajs buf') = samples # drop (Suc ?n) (samples_trajs buf')"
  proof -
    have n: "?n < length (samples_trajs buf')" using len by simp
    have "samples_trajs buf' ! ?n = take (Suc ?n) (samples_trajs buf') ! ?n"
      by simp
    also have "\<dots> = samples" by (simp only: tk) simp
    finally show ?thesis using n by (simp add: Cons_nth_drop_Suc [symmetric])
  qed
  then have "venv_step_calls (trace st') =
           venv_step_calls (trace st) @
           map (map (take (act_steps cfg))) (drop ?n (samples_trajs buf'))"
    using ih b1 t1 by (simp add: venv_step_calls_append venv_step_calls_def)
  with len tk0 show ?case by simp
qed

lemma collect_step_chunk_length:
  assumes "collect_step cfg env em step (st, buf) = Inr (st', buf')"
    and "\<forall>obs d w. \<forall>chunk \<in> set (fst (model_forward env obs d w)). length chunk = h"
    and "\<forall>row \<in> set (samples_trajs buf). \<forall>chunk \<in> set row. length chunk = h"
  shows "\<forall>row \<in> set (samples_trajs buf'). \<forall>chunk \<in> set row. length chunk = h"
  using collect_step_Inr [OF assms(1)] assms(2,3) by auto

text \<open>
  C8. Each collection step appends the whole sample returned by the policy to
  \<^verbatim>\<open>samples_trajs\<close> and calls the environment with the first \<open>act_steps\<close> actions of
  every chunk. After the rollout the buffer has \<open>n_steps\<close> rows and the environment
  was called once per row with that row's prefixes. When the policy returns chunks of
  length \<open>h\<close> and \<open>act_steps \<le> h\<close>, the stored chunks have length \<open>h\<close> and the applied
  ones length \<open>act_steps\<close>. The summary cuts the training targets
  \<^verbatim>\<open>samples_trajs_split\<close> out of the stored chunks.
\<close>

theorem rollout_records_full_chunk_and_applies_prefix:
  fixes st :: "('o, 'a, 'w) loop_state"
  assumes "collect cfg env em (st, empty_buffers firsts) = Inr (st', buf)"
  shows "length (samples_trajs buf) = n_steps cfg \<and>
         venv_step_calls (trace st') =
           venv_step_calls (trace st) @ map (map (take (act_steps cfg))) (samples_trajs buf) \<and>
         (\<forall>step s b s' b'. collect_step cfg env em step (s, b) = Inr (s', b') \<longrightarrow>
            (\<exists>prev. prev_obs_venv s = Some prev \<and>
               samples_trajs b' = samples_trajs b @ [fst (model_forward env prev em (world s))] \<and>
               trace s' = trace s @
                 [ModelForward prev em,
                  VenvStep (map (take (act_steps cfg)) (fst (model_forward env prev em (world s))))])) \<and>
         ((\<forall>obs d w. \<forall>chunk \<in> set (fst (model_forward env obs d w)). length chunk = h) \<and>
          act_steps cfg \<le> h \<longrightarrow>
            (\<forall>row \<in> set (samples_trajs buf). \<forall>chunk \<in> set row. length chunk = h) \<and>
            (\<forall>call \<in> set (map (map (take (act_steps cfg))) (samples_trajs buf)).
               \<forall>a \<in> set call. length a = act_steps cfg)) \<and>
         (summarize cfg (st', buf) = (st'', m) \<and>
          episodes_start_end (n_envs cfg) (firsts_trajs buf) \<noteq> [] \<longrightarrow>
            samples_trajs_split st'' =
              Some (map (\<lambda>(env_ind, start, end). traj_slice (samples_trajs buf) env_ind start end)
                      (episodes_start_end (n_envs cfg) (firsts_trajs buf))))"
proof -
  have target: "samples_trajs_split st'' =
              Some (map (\<lambda>(env_ind, start, end). traj_slice (samples_trajs buf) env_ind start end)
                      (episodes_start_end (n_envs cfg) (firsts_trajs buf)))"
    if "summarize cfg (st', buf) = (st'', m)"
      and "episodes_start_end (n_envs cfg) (firsts_trajs buf) \<noteq> []"
    using that by (auto simp: summarize_def Let_def)
  have fe: "for_each (collect_step cfg env em) [0..<n_steps cfg] (st, empty_buffers firsts) = Inr (st', buf)"
    using assms by (simp add: collect_def)
  have loop: "length (samples_trajs buf) = n_steps cfg"
    "venv_step_calls (trace st') =
       venv_step_calls (trace st) @ map (map (take (act_steps cfg))) (samples_trajs buf)"
    using collect_loop_samples [OF fe] by (simp_all add: empty_buffers_def)
  have steps: "\<exists>prev. prev_obs_venv s = Some prev \<and>
               samples_trajs b' = samples_trajs b @ [fst (model_forward env prev em (world s))] \<and>
               trace s' = trace s @
                 [ModelForward prev em,
                  VenvStep (map (take (act_steps cfg)) (fst (model_forward env prev em (world s))))]"
    if "collect_step cfg env em step (s, b) = Inr (s', b')" for step s b s' b'
    using that by (rule collect_step_Inr)
  have chunks: "\<forall>row \<in> set (samples_trajs buf). \<forall>chunk \<in> set row. length chunk = h"
    if h: "\<forall>obs d w. \<forall>chunk \<in> set (fst (model_forward env obs d w)). length chunk = h"
  proof -
    let ?I = "\<lambda>sb :: ('o, 'a, 'w) loop_state \<times> ('o, 'a) buffers.
                \<forall>row \<in> set (samples_trajs (snd sb)). \<forall>chunk \<in> set row. length chunk = h"
    have "?I (st', buf)"
    proof (rule for_each_rule [where I = ?I, OF fe])
      show "?I (st, empty_buffers firsts)" by (simp add: empty_buffers_def)
    next
      fix x t t'
      assume "?I t" and "collect_step cfg env em x t = Inr t'"
      then show "?I t'"
        using collect_step_chunk_length [of cfg env em x "fst t" "snd t" "fst t'" "snd t'" h] h
        by simp
    qed
    then show ?thesis by simp
  qed
  have prefixes: "\<forall>call \<in> set (map (map (take (act_steps cfg))) (samples_trajs buf)).
               \<forall>a \<in> set call. length a = act_steps cfg"
    if "\<forall>obs d w. \<forall>chunk \<in> set (fst (model_forward env obs d w)). length chunk = h"
      and "act_steps cfg \<le> h"
    using chunks [OF that(1)] that(2) by auto
  show ?thesis
    using loop steps chunks prefixes target by blast
qed

text \<open>
  In the instance the policy returns chunks of two actions and one is applied: three
  rows of full chunks are stored and the environment receives their one-action prefixes.
\<close>

theorem rollout_records_full_chunk_and_applies_prefix_witness:
  "\<exists>st' buf.
     collect example_config example_env True
       ((initial_state example_config 0 0)\<lparr>prev_obs_venv := Some [0]\<rparr>, empty_buffers [[1], [0], [0], [0]]) =
       Inr (st', buf) \<and>
     length (samples_trajs buf) = 3 \<and>
     venv_step_calls (trace st') = map (map (take 1)) (samples_trajs buf) \<and>
     list_all (list_all (\<lambda>chunk. length chunk = 2)) (samples_trajs buf)"
proof -
  let ?st = "(initial_state example_config 0 (0::nat) :: (nat, nat, nat) loop_state)\<lparr>prev_obs_venv := Some [0]\<rparr>"
  obtain st' buf where c:
    "collect example_config example_env True (?st, empty_buffers [[1], [0], [0], [0]]) = Inr (st', buf)"
    using collect_total [of ?st example_config example_env True "empty_buffers [[1], [0], [0], [0]]"]
    by auto
  have chunk: "\<forall>obs d w. \<forall>chunk \<in> set (fst (model_forward example_env obs d w)). length chunk = 2"
    by (auto simp: example_env_def)
  have act: "act_steps example_config \<le> 2" "act_steps example_config = 1" "n_steps example_config = 3"
    by (simp_all add: example_config_def)
  have tr: "venv_step_calls (trace ?st) = []"
    by (simp add: initial_state_def venv_step_calls_def)
  from rollout_records_full_chunk_and_applies_prefix [OF c, of 2] chunk act tr
  have "length (samples_trajs buf) = 3 \<and>
     venv_step_calls (trace st') = map (map (take 1)) (samples_trajs buf) \<and>
     list_all (list_all (\<lambda>chunk. length chunk = 2)) (samples_trajs buf)"
    by (simp add: list_all_iff)
  with c show ?thesis by blast
qed

section \<open>The first iteration\<close>

lemma begin_iteration_initial:
  "(\<exists>r. begin_iteration cfg env opts em (initial_state cfg itr0 w) = Inr r) \<longleftrightarrow>
     reset_at_iteration cfg \<or> em"
  by (auto simp: begin_iteration_def reset_condition_def initial_state_def Let_def
      split: prod.splits)

lemma begin_iteration_binds:
  assumes "begin_iteration cfg env opts em st = Inr (st1, firsts)"
  shows "last_itr_eval st1 = Some em \<and>
         (prev_obs_venv st = None \<longrightarrow> (prev_obs_venv st1 \<noteq> None \<longleftrightarrow> reset_at_iteration cfg \<or> em \<or> last_itr_eval st = Some True))"
  using assms
  by (auto simp: begin_iteration_def reset_condition_def Let_def
      split: prod.splits sum.splits bool.splits if_splits option.splits)

text \<open>
  C10. At the \<^verbatim>\<open>while\<close> neither \<^verbatim>\<open>last_itr_eval\<close> nor \<^verbatim>\<open>prev_obs_venv\<close> is assigned.
  With the force-train override set and no reset at each iteration, the first iteration
  reads \<^verbatim>\<open>last_itr_eval\<close> in the reset condition and the run ends with
  \<^verbatim>\<open>UnboundLocalError\<close>. For any configuration the first iteration gets past the reset
  decision exactly when it resets (reset at each iteration, or evaluation mode), and
  then both variables are assigned.
\<close>

theorem first_iteration_reads_unassigned_last_itr_eval:
  fixes env :: "('o, 'a, 'w) collaborators" and w :: 'w
  assumes "force_train cfg" and "\<not> reset_at_iteration cfg" and "itr0 < n_train_itr cfg"
    and "render_freq cfg \<noteq> 0" and "n_render cfg \<le> n_envs cfg" and "val_freq cfg \<noteq> 0"
  shows "last_itr_eval (initial_state cfg itr0 w :: ('o, 'a, 'w) loop_state) = None \<and>
         prev_obs_venv (initial_state cfg itr0 w :: ('o, 'a, 'w) loop_state) = None \<and>
         run_iteration cfg env (initial_state cfg itr0 w) = Inl (UnboundLocalError ''last_itr_eval'') \<and>
         run cfg env (initial_state cfg itr0 w) = Inl (UnboundLocalError ''last_itr_eval'') \<and>
         (\<forall>c opts em. (\<exists>r. begin_iteration c env opts em (initial_state c itr0 w) = Inr r) \<longleftrightarrow>
                         reset_at_iteration c \<or> em) \<and>
         (\<forall>c opts em st1 firsts.
            begin_iteration c env opts em (initial_state c itr0 w) = Inr (st1, firsts) \<longrightarrow>
              last_itr_eval st1 = Some em \<and> prev_obs_venv st1 \<noteq> None)"
proof -
  let ?st = "initial_state cfg itr0 w :: ('o, 'a, 'w) loop_state"
  have un: "last_itr_eval ?st = None" "prev_obs_venv ?st = None" "itr ?st = itr0"
    by (simp_all add: initial_state_def)
  have "\<exists>opts. options_venv cfg itr0 = Inr opts"
    using assms(4,5) by (simp add: options_venv_def)
  then obtain opts where o: "options_venv cfg itr0 = Inr opts" ..
  have e: "eval_mode cfg itr0 = Inr False"
    using assms(1,6) by (simp add: eval_mode_def)
  have b: "begin_iteration cfg env opts False ?st = Inl (UnboundLocalError ''last_itr_eval'')"
    using assms(2) by (simp add: begin_iteration_def reset_condition_def Let_def initial_state_def)
  have it: "run_iteration cfg env ?st = Inl (UnboundLocalError ''last_itr_eval'')"
    using o e b un(3) by (simp add: run_iteration_def)
  have r: "run cfg env ?st = Inl (UnboundLocalError ''last_itr_eval'')"
    using assms(3) it un(3) by (subst run.simps) simp
  have binds: "last_itr_eval st1 = Some em \<and> prev_obs_venv st1 \<noteq> None"
    if "begin_iteration c env opts em (initial_state c itr0 w) = Inr (st1, firsts)"
    for c opts em st1 firsts
  proof -
    have "reset_at_iteration c \<or> em"
      using that begin_iteration_initial [of c env opts em itr0 w] by blast
    then show ?thesis
      using begin_iteration_binds [OF that] by (simp add: initial_state_def)
  qed
  have only_reset: "\<forall>c opts em. (\<exists>r. begin_iteration c env opts em (initial_state c itr0 w) = Inr r) \<longleftrightarrow>
                         reset_at_iteration c \<or> em"
    by (intro allI) (rule begin_iteration_initial)
  have assigned: "\<forall>c opts em st1 firsts.
            begin_iteration c env opts em (initial_state c itr0 w) = Inr (st1, firsts) \<longrightarrow>
              last_itr_eval st1 = Some em \<and> prev_obs_venv st1 \<noteq> None"
    using binds by blast
  show ?thesis
    by (intro conjI un(1) un(2) it r only_reset assigned)
qed

text \<open>The instance with the override set, started at iteration 0.\<close>

theorem first_iteration_reads_unassigned_last_itr_eval_witness:
  "force_train example_forced_config \<and> \<not> reset_at_iteration example_forced_config \<and>
   0 < n_train_itr example_forced_config \<and> render_freq example_forced_config \<noteq> 0 \<and>
   n_render example_forced_config \<le> n_envs example_forced_config \<and>
   val_freq example_forced_config \<noteq> 0 \<and>
   run example_forced_config example_env (initial_state example_forced_config 0 0) =
     Inl (UnboundLocalError ''last_itr_eval'')"
proof -
  have h: "force_train example_forced_config" "\<not> reset_at_iteration example_forced_config"
    "0 < n_train_itr example_forced_config" "render_freq example_forced_config \<noteq> 0"
    "n_render example_forced_config \<le> n_envs example_forced_config"
    "val_freq example_forced_config \<noteq> 0"
    by (simp_all add: example_forced_config_def example_config_def)
  from first_iteration_reads_unassigned_last_itr_eval [OF h, where env = example_env and w = "0::nat"]
  have "run example_forced_config example_env (initial_state example_forced_config 0 0) =
     Inl (UnboundLocalError ''last_itr_eval'')"
    by (elim conjE)
  with h show ?thesis by simp
qed

section \<open>The update step\<close>

lemma summarize_returns:
  assumes "summarize cfg (st, buf) = (st', m)"
    and "episodes_start_end (n_envs cfg) (firsts_trajs buf) \<noteq> []"
  shows "returns_trajs_split st' =
           Some (returns_concat (gamma cfg) (reward_trajs buf)
                   (episodes_start_end (n_envs cfg) (firsts_trajs buf)))"
  using assms by (auto simp: summarize_def Let_def)

lemma example_update:
  "update example_config example_env example_after_eval =
     Inr (example_after_eval\<lparr>loss := Some 2,
            trace := trace example_after_eval @
                       [ModelLoss [[2, 3], [1, 2]] [2, 1] [1, 1], OptimizerStep]\<rparr>)"
  by (simp add: phase_defs example_config_def example_env_def Let_def numeral_2_eq_2 numeral_3_eq_3
      three_div_two example_after_eval_def
      normalize_returns_def np_mean_def np_std_def norm_denominator_def rewards_k_scaled_def
      eval_nat_numeral)

section \<open>A training iteration without a completed episode\<close>

lemma summarize_no_segments:
  assumes "summarize cfg (st, buf) = (st', m)"
    and "episodes_start_end (n_envs cfg) (firsts_trajs buf) = []"
  shows "obs_trajs_split st' = obs_trajs_split st \<and>
         samples_trajs_split st' = samples_trajs_split st \<and>
         returns_trajs_split st' = returns_trajs_split st \<and>
         trace st' = trace st @ [LogWarning] \<and>
         avg_episode_reward m = 0 \<and> num_episode_finished m = 0"
  using assms by (auto simp: summarize_def Let_def)

lemma update_unassigned:
  "obs_trajs_split st = None \<Longrightarrow> update cfg env st = Inl (UnboundLocalError ''obs_trajs_split'')"
  by (simp add: update_def)

text \<open>
  The update block is entered in every training iteration. When the segmenter returns
  nothing and no earlier iteration assigned \<^verbatim>\<open>obs_trajs_split\<close>, reading it raises.
\<close>

lemma training_iteration_without_segments_raises:
  assumes "options_venv cfg (itr st) = Inr opts" and "eval_mode cfg (itr st) = Inr False"
    and "begin_iteration cfg env opts False st = Inr (st1, firsts)"
    and "collect cfg env False (st1, empty_buffers firsts) = Inr (st2, buf)"
    and "episodes_start_end (n_envs cfg) (firsts_trajs buf) = []"
    and "obs_trajs_split st = None"
  shows "run_iteration cfg env st = Inl (UnboundLocalError ''obs_trajs_split'')"
proof -
  obtain st3 m where s: "summarize cfg (st2, buf) = (st3, m)"
    by (cases "summarize cfg (st2, buf)")
  have "obs_trajs_split st3 = None"
    using summarize_no_segments [OF s assms(5)] collect_frame [OF assms(4)]
      begin_iteration_frame [OF assms(3)] assms(6) by simp
  then have "update cfg env st3 = Inl (UnboundLocalError ''obs_trajs_split'')"
    by (rule update_unassigned)
  then show ?thesis
    using assms(1-4) s by (simp add: run_iteration_def)
qed

text \<open>
  C1 on the instance. Forced into training mode, the first iteration ends no episode
  and the update raises on the unassigned \<^verbatim>\<open>obs_trajs_split\<close>. In the unforced run
  iteration 0 evaluates and stores one segment; iteration 1 trains, ends no episode,
  logs the warning, and then computes a loss and takes an optimiser step on the
  transitions that iteration 0 left in the \<^verbatim>\<open>_split\<close> variables.
\<close>

theorem training_iteration_without_segments_still_updates:
  "run_iteration example_train_config example_env (initial_state example_train_config 0 0) =
     Inl (UnboundLocalError ''obs_trajs_split'') \<and>
   run example_config example_env (initial_state example_config 0 0) = Inr example_after_train \<and>
   run_iteration example_config example_env example_after_eval = Inr example_after_train \<and>
   eval_mode example_config (itr example_after_eval) = Inr False \<and>
   filter (\<lambda>ev. ev = LogWarning \<or> is_update_call ev)
     (drop (length (trace example_after_eval)) (trace example_after_train)) =
     [LogWarning, ModelLoss [[2, 3], [1, 2]] [2, 1] [1, 1], OptimizerStep]"
proof -
  have "eval_mode example_config (itr example_after_eval) = Inr False"
    by (simp add: eval_mode_def example_config_def example_after_eval_def)
  moreover have "filter (\<lambda>ev. ev = LogWarning \<or> is_update_call ev)
     (drop (length (trace example_after_eval)) (trace example_after_train)) =
     [LogWarning, ModelLoss [[2, 3], [1, 2]] [2, 1] [1, 1], OptimizerStep]"
    by (simp add: example_after_train_def)
  ultimately show ?thesis
    using example_train_iteration example_run example_iteration_1 by simp
qed

section \<open>Minibatches\<close>

lemma length_inds_b:
  "length (inds_b inds bs b) = min bs (length inds - b * bs)"
  by (simp add: inds_b_def slice_def Let_def)

lemma inds_b_full:
  assumes "b < length inds div bs"
  shows "length (inds_b inds bs b) = bs"
proof -
  have "Suc b * bs \<le> length inds div bs * bs"
    using assms by (intro mult_le_mono1) simp
  also have "\<dots> \<le> length inds" by simp
  finally show ?thesis by (simp add: length_inds_b)
qed

lemma concat_inds_b: "concat (map (inds_b inds bs) [0..<n]) = take (n * bs) inds"
proof (induction n)
  case 0
  then show ?case by simp
next
  case (Suc n)
  have "take (n * bs) inds @ inds_b inds bs n = take (n * bs + bs) inds"
    by (simp add: inds_b_def slice_def Let_def take_add)
  with Suc show ?case by (simp add: add.commute)
qed


text \<open>The calls of one minibatch, given the shuffled indices.\<close>

lemma update_batch_trace:
  assumes "update_batch cfg env obs_k samples_k weights shuffled batch st = Inr st'"
  shows "trace st' = trace st @
           [ModelLoss (map (\<lambda>i. samples_k ! i) (inds_b shuffled (batch_size cfg) batch))
                      (map (\<lambda>i. obs_k ! i) (inds_b shuffled (batch_size cfg) batch))
                      (map (\<lambda>i. weights ! i) (inds_b shuffled (batch_size cfg) batch)),
            OptimizerStep]"
  using assms
  by (auto simp: update_batch_def gather_def Let_def split: sum.splits if_splits)

lemma update_batches_trace:
  assumes "for_each (update_batch cfg env obs_k samples_k weights shuffled) batches st = Inr st'"
  shows "trace st' = trace st @
           concat (map (\<lambda>ib. [ModelLoss (map (\<lambda>i. samples_k ! i) ib) (map (\<lambda>i. obs_k ! i) ib)
                                         (map (\<lambda>i. weights ! i) ib), OptimizerStep])
                     (map (inds_b shuffled (batch_size cfg)) batches))"
  using assms
proof (induction batches arbitrary: st)
  case Nil
  then show ?case by simp
next
  case (Cons batch batches)
  from Cons.prems obtain st1 where
    s1: "update_batch cfg env obs_k samples_k weights shuffled batch st = Inr st1" and
    rest: "for_each (update_batch cfg env obs_k samples_k weights shuffled) batches st1 = Inr st'"
    by (auto split: sum.splits)
  show ?case
    using Cons.IH [OF rest] update_batch_trace [OF s1] by simp
qed

lemma update_epoch_trace:
  assumes "update_epoch cfg env obs_k samples_k weights epoch (st, inds_k) = Inr (st', inds')"
  shows "0 < batch_size cfg \<and> inds' = fst (random_shuffle env inds_k (world st)) \<and>
         trace st' = trace st @
           concat (map (\<lambda>ib. [ModelLoss (map (\<lambda>i. samples_k ! i) ib) (map (\<lambda>i. obs_k ! i) ib)
                                         (map (\<lambda>i. weights ! i) ib), OptimizerStep])
                     (map (inds_b inds' (batch_size cfg))
                        [0..<max 1 (length weights div batch_size cfg)]))"
proof -
  obtain shuffled w where sh: "random_shuffle env inds_k (world st) = (shuffled, w)"
    by (cases "random_shuffle env inds_k (world st)")
  from assms sh have pos: "0 < batch_size cfg"
    by (auto simp: update_epoch_def num_batch_def split: sum.splits if_splits)
  from assms sh pos have
    fe: "for_each (update_batch cfg env obs_k samples_k weights shuffled)
           [0..<max 1 (length weights div batch_size cfg)] (st\<lparr>world := w\<rparr>) = Inr st'"
    and i: "inds' = shuffled"
    by (auto simp: update_epoch_def num_batch_def split: sum.splits)
  show ?thesis
    using update_batches_trace [OF fe] sh pos i by simp
qed

text \<open>
  C6, as the code has it. With a positive batch size an epoch runs
  \<open>max 1 (total div batch_size)\<close> batches, cut in order from the shuffled indices. When
  there are at least \<open>batch_size\<close> indices every batch is full and the last
  \<open>total mod batch_size\<close> shuffled indices are dropped; when there are fewer, the one
  batch that runs holds all of them and is not full. An epoch of the update calls the
  loss and the optimiser once per batch, in this order, when the shuffle keeps the
  number of indices.
\<close>

theorem epoch_batches_sizes:
  assumes "0 < bs"
  shows "(\<exists>batches. epoch_batches inds bs = Inr batches \<and>
           length batches = max 1 (length inds div bs) \<and>
           (bs \<le> length inds \<longrightarrow>
              (\<forall>b \<in> set batches. length b = bs) \<and>
              concat batches = take (length inds div bs * bs) inds \<and>
              length inds - length (concat batches) = length inds mod bs) \<and>
           (length inds < bs \<longrightarrow> batches = [inds])) \<and>
         (update_epoch cfg env obs_k samples_k weights epoch (st, inds_k) = Inr (st', inds') \<and>
          length (fst (random_shuffle env inds_k (world st))) = length weights \<longrightarrow>
            (\<exists>batches. epoch_batches inds' (batch_size cfg) = Inr batches \<and>
               trace st' = trace st @
                 concat (map (\<lambda>ib. [ModelLoss (map (\<lambda>i. samples_k ! i) ib)
                                               (map (\<lambda>i. obs_k ! i) ib)
                                               (map (\<lambda>i. weights ! i) ib), OptimizerStep])
                           batches)))"
proof (rule conjI)
  let ?nb = "max 1 (length inds div bs)"
  let ?batches = "map (inds_b inds bs) [0..<?nb]"
  have eq: "epoch_batches inds bs = Inr ?batches"
    using assms by (simp add: epoch_batches_def num_batch_def)
  have full: "?nb = length inds div bs" if "bs \<le> length inds"
  proof -
    have "0 < length inds div bs"
      using assms that by (simp add: div_greater_zero_iff)
    then show ?thesis by simp
  qed
  have "\<forall>b \<in> set ?batches. length b = bs" if "bs \<le> length inds"
    using full [OF that] by (auto simp: inds_b_full)
  moreover have "concat ?batches = take (length inds div bs * bs) inds" if "bs \<le> length inds"
    using full [OF that] by (simp add: concat_inds_b)
  moreover have "length inds - length (concat ?batches) = length inds mod bs" if "bs \<le> length inds"
    using full [OF that] by (simp add: concat_inds_b minus_mult_div_eq_mod mult.commute)
  moreover have "?batches = [inds]" if "length inds < bs"
    using that by (simp add: inds_b_def slice_def)
  ultimately show "\<exists>batches. epoch_batches inds bs = Inr batches \<and>
           length batches = max 1 (length inds div bs) \<and>
           (bs \<le> length inds \<longrightarrow>
              (\<forall>b \<in> set batches. length b = bs) \<and>
              concat batches = take (length inds div bs * bs) inds \<and>
              length inds - length (concat batches) = length inds mod bs) \<and>
           (length inds < bs \<longrightarrow> batches = [inds])"
    using eq by (intro exI [of _ ?batches]) simp
next
  show "update_epoch cfg env obs_k samples_k weights epoch (st, inds_k) = Inr (st', inds') \<and>
          length (fst (random_shuffle env inds_k (world st))) = length weights \<longrightarrow>
            (\<exists>batches. epoch_batches inds' (batch_size cfg) = Inr batches \<and>
               trace st' = trace st @
                 concat (map (\<lambda>ib. [ModelLoss (map (\<lambda>i. samples_k ! i) ib)
                                               (map (\<lambda>i. obs_k ! i) ib)
                                               (map (\<lambda>i. weights ! i) ib), OptimizerStep])
                           batches))"
  proof
    assume a: "update_epoch cfg env obs_k samples_k weights epoch (st, inds_k) = Inr (st', inds') \<and>
          length (fst (random_shuffle env inds_k (world st))) = length weights"
    note t = update_epoch_trace [OF a [THEN conjunct1]]
    have len: "length inds' = length weights"
      using t a by simp
    have "epoch_batches inds' (batch_size cfg) =
            Inr (map (inds_b inds' (batch_size cfg)) [0..<max 1 (length weights div batch_size cfg)])"
      using t len by (simp add: epoch_batches_def num_batch_def)
    then show "\<exists>batches. epoch_batches inds' (batch_size cfg) = Inr batches \<and>
               trace st' = trace st @
                 concat (map (\<lambda>ib. [ModelLoss (map (\<lambda>i. samples_k ! i) ib)
                                               (map (\<lambda>i. obs_k ! i) ib)
                                               (map (\<lambda>i. weights ! i) ib), OptimizerStep])
                           batches)"
      using t by simp
  qed
qed

text \<open>
  Ten shuffled indices and batch size 4: two batches of four, the last two indices
  dropped.
\<close>

theorem epoch_batches_sizes_witness:
  "(0::nat) < 4 \<and>
   epoch_batches [3, 1, 4, 0, 9, 2, 6, 5, 8, 7] 4 = Inr [[3, 1, 4, 0], [9, 2, 6, 5]] \<and>
   max 1 (length [3, 1, 4, 0, 9, 2, 6, 5, 8, 7::nat] div 4) = (2::nat) \<and>
   length [3, 1, 4, 0, 9, 2, 6, 5, 8, 7::nat] mod 4 = 2"
proof -
  have pos: "(0::nat) < 4" by simp
  obtain batches where b: "epoch_batches [3, 1, 4, 0, 9, 2, 6, 5, 8, 7] 4 = Inr batches"
      "length batches = max 1 (length [3, 1, 4, 0, 9, 2, 6, 5, 8, 7::nat] div 4)"
    using epoch_batches_sizes [OF pos, THEN conjunct1, of "[3, 1, 4, 0, 9, 2, 6, 5, 8, 7]"] by blast
  have "epoch_batches [3, 1, 4, 0, 9, 2, 6, 5, 8, 7] 4 = Inr [[3, 1, 4, 0], [9, 2, 6, 5]]"
    by code_simp
  with b show ?thesis by simp
qed

text \<open>
  The claim as written fails when fewer than \<open>batch_size\<close> transitions were kept: with
  three indices and batch size 4 the one batch that runs has three entries.
\<close>

theorem epoch_batches_partial_batch:
  "epoch_batches [2, 0, 1] 4 = Inr [[2, 0, 1]] \<and> length [2, 0, 1::nat] < 4"
  by (simp add: epoch_batches_def num_batch_def inds_b_def slice_def)

section \<open>The weights the update uses\<close>

lemma update_epochs_trace:
  fixes st :: "('o, 'a, 'w) loop_state"
  assumes "for_each (update_epoch cfg env obs_k samples_k weights) epochs (st, inds) = Inr (st', inds')"
  shows "\<exists>shuffles. length shuffles = length epochs \<and>
           trace st' = trace st @
             concat (map (\<lambda>shuffled.
                       concat (map (\<lambda>ib. [ModelLoss (map (\<lambda>i. samples_k ! i) ib)
                                                     (map (\<lambda>i. obs_k ! i) ib)
                                                     (map (\<lambda>i. weights ! i) ib), OptimizerStep])
                                 (map (inds_b shuffled (batch_size cfg))
                                    [0..<max 1 (length weights div batch_size cfg)])))
                     shuffles)"
  using assms
proof (induction epochs arbitrary: st inds)
  case Nil
  then show ?case by simp
next
  case (Cons epoch epochs)
  from Cons.prems obtain st1 inds1 where
    s1: "update_epoch cfg env obs_k samples_k weights epoch (st, inds) = Inr (st1, inds1)" and
    rest: "for_each (update_epoch cfg env obs_k samples_k weights) epochs (st1, inds1) = Inr (st', inds')"
    by (auto split: sum.splits)
  from Cons.IH [OF rest] obtain shuffles where
    sh: "length shuffles = length epochs"
    "trace st' = trace st1 @
             concat (map (\<lambda>shuffled.
                       concat (map (\<lambda>ib. [ModelLoss (map (\<lambda>i. samples_k ! i) ib)
                                                     (map (\<lambda>i. obs_k ! i) ib)
                                                     (map (\<lambda>i. weights ! i) ib), OptimizerStep])
                                 (map (inds_b shuffled (batch_size cfg))
                                    [0..<max 1 (length weights div batch_size cfg)])))
                     shuffles)"
    by blast
  show ?case
    using sh update_epoch_trace [OF s1]
    by (intro exI [of _ "inds1 # shuffles"]) simp
qed

text \<open>
  C4. The update normalises the stored returns with their population mean and standard
  deviation plus 0.001, exponentiates \<open>beta\<close> times the result and cuts it off at the
  maximum weight. Every loss call of every epoch receives, for the transitions of its
  index batch, the entries of exactly this vector at the same indices: nothing rescales
  the weights after the clamp. The stored returns are the concatenation of the
  segments' returns.
\<close>

theorem weights_are_clamped_exponentials_of_normalized_returns:
  fixes st :: "('o, 'a, 'w) loop_state"
  assumes "update cfg env st = Inr st'"
    and "obs_trajs_split st = Some obs_split"
    and "samples_trajs_split st = Some samples_split"
    and "returns_trajs_split st = Some returns"
  shows "(\<exists>shuffles. length shuffles = update_epochs cfg \<and>
           trace st' = trace st @
             concat (map (\<lambda>shuffled.
                       concat (map (\<lambda>ib. [ModelLoss (map (\<lambda>i. concat samples_split ! i) ib)
                                                     (map (\<lambda>i. concat obs_split ! i) ib)
                                                     (map (\<lambda>i. spec_weights (beta cfg) (max_reward_weight cfg) returns ! i) ib),
                                           OptimizerStep])
                                 (map (inds_b shuffled (batch_size cfg))
                                    [0..<max 1 (length returns div batch_size cfg)])))
                     shuffles)) \<and>
         length (spec_weights (beta cfg) (max_reward_weight cfg) returns) = length returns \<and>
         (\<forall>i < length returns.
            spec_weights (beta cfg) (max_reward_weight cfg) returns ! i =
              min (exp (beta cfg * ((returns ! i - spec_mean returns) / (spec_std returns + 1 / 1000))))
                  (max_reward_weight cfg)) \<and>
         (\<forall>s buf m. summarize cfg (s, buf) = (st, m) \<and>
            episodes_start_end (n_envs cfg) (firsts_trajs buf) \<noteq> [] \<longrightarrow>
              returns = returns_concat (gamma cfg) (reward_trajs buf)
                          (episodes_start_end (n_envs cfg) (firsts_trajs buf)))"
proof (intro conjI allI impI)
  let ?w = "spec_weights (beta cfg) (max_reward_weight cfg) returns"
  have w: "rewards_k_scaled (beta cfg) (max_reward_weight cfg) (normalize_returns returns) = ?w"
    using reward_weights_spec [of "beta cfg" "max_reward_weight cfg" returns]
    by (simp add: reward_weights_def)
  have len: "length ?w = length returns"
    by (simp add: spec_weights_def)
  from assms obtain inds where
    fe: "for_each (update_epoch cfg env (concat obs_split) (concat samples_split) ?w)
           [0..<update_epochs cfg]
           (st\<lparr>returns_trajs_split := Some (normalize_returns returns)\<rparr>, [0..<length ?w]) = Inr (st', inds)"
    by (auto simp: update_def Let_def w split: sum.splits prod.splits)
  show "\<exists>shuffles. length shuffles = update_epochs cfg \<and>
           trace st' = trace st @
             concat (map (\<lambda>shuffled.
                       concat (map (\<lambda>ib. [ModelLoss (map (\<lambda>i. concat samples_split ! i) ib)
                                                     (map (\<lambda>i. concat obs_split ! i) ib)
                                                     (map (\<lambda>i. ?w ! i) ib),
                                           OptimizerStep])
                                 (map (inds_b shuffled (batch_size cfg))
                                    [0..<max 1 (length returns div batch_size cfg)])))
                     shuffles)"
    using update_epochs_trace [OF fe] by (simp add: len)
  show "length ?w = length returns" by (rule len)
next
  fix i assume "i < length returns"
  then show "spec_weights (beta cfg) (max_reward_weight cfg) returns ! i =
              min (exp (beta cfg * ((returns ! i - spec_mean returns) / (spec_std returns + 1 / 1000))))
                  (max_reward_weight cfg)"
    by (simp add: spec_weights_def)
next
  fix s buf m
  assume "summarize cfg (s, buf) = (st, m) \<and>
            episodes_start_end (n_envs cfg) (firsts_trajs buf) \<noteq> []"
  then show "returns = returns_concat (gamma cfg) (reward_trajs buf)
                          (episodes_start_end (n_envs cfg) (firsts_trajs buf))"
    using summarize_returns [of cfg s buf st m] assms(4) by simp
qed

text \<open>
  In the instance the stored returns are \<open>[0,0,0]\<close>, so every weight is \<open>exp 0 = 1\<close>, below
  the maximum 100; the one epoch of the update makes its loss call with these weights.
\<close>

theorem weights_are_clamped_exponentials_of_normalized_returns_witness:
  "update example_config example_env example_after_eval =
     Inr (example_after_eval\<lparr>loss := Some 2,
            trace := trace example_after_eval @
                       [ModelLoss [[2, 3], [1, 2]] [2, 1] [1, 1], OptimizerStep]\<rparr>) \<and>
   obs_trajs_split example_after_eval = Some [[0, 1, 2]] \<and>
   samples_trajs_split example_after_eval = Some [[[0, 1], [1, 2], [2, 3]]] \<and>
   returns_trajs_split example_after_eval = Some [0, 0, 0] \<and>
   spec_weights (beta example_config) (max_reward_weight example_config) [0, 0, 0] = [1, 1, 1] \<and>
   (\<exists>shuffles. length shuffles = update_epochs example_config \<and>
      trace (example_after_eval\<lparr>loss := Some 2,
               trace := trace example_after_eval @
                          [ModelLoss [[2, 3], [1, 2]] [2, 1] [1, 1], OptimizerStep]\<rparr>) =
        trace example_after_eval @
          concat (map (\<lambda>shuffled.
                    concat (map (\<lambda>ib. [ModelLoss (map (\<lambda>i. concat [[[0, 1], [1, 2], [2, 3]]] ! i) ib)
                                                  (map (\<lambda>i. concat [[0, 1, 2]] ! i) ib)
                                                  (map (\<lambda>i. spec_weights (beta example_config)
                                                                (max_reward_weight example_config)
                                                                [0, 0, 0] ! i) ib),
                                        OptimizerStep])
                              (map (inds_b shuffled (batch_size example_config))
                                 [0..<max 1 (length [0, 0, 0 :: real] div batch_size example_config)])))
                  shuffles))"
proof -
  have h: "obs_trajs_split example_after_eval = Some [[0, 1, 2]]"
    "samples_trajs_split example_after_eval = Some [[[0, 1], [1, 2], [2, 3]]]"
    "returns_trajs_split example_after_eval = Some [0, 0, 0]"
    by (simp_all add: example_after_eval_def)
  have w: "spec_weights (beta example_config) (max_reward_weight example_config) [0, 0, 0] = [1, 1, 1]"
    using reward_weights_zeros [of 1 100]
    by (simp add: example_config_def flip: reward_weights_spec)
  note t = weights_are_clamped_exponentials_of_normalized_returns [OF example_update h]
  show ?thesis
    by (intro conjI example_update h w t [THEN conjunct1])
qed

section \<open>Metrics persistence\<close>

text \<open>What the logging block does with the record list, the file and the clock.\<close>

lemma log_metrics_skip:
  assumes "log_metrics cfg env em m st = Inr st'" and "itr st mod log_freq cfg \<noteq> 0"
  shows "run_results st' = run_results st @ [[''itr'' \<mapsto> of_int (itr st)]] \<and>
         result_file st' = result_file st \<and> trace st' = trace st \<and> world st' = world st"
  using assms by (auto simp: log_metrics_def Let_def split: if_splits)

lemma log_metrics_eval:
  assumes "log_metrics cfg env True m st = Inr st'" and "itr st mod log_freq cfg = 0"
  shows "run_results st' = run_results st @
           [[''itr'' \<mapsto> of_int (itr st), ''eval_success_rate'' \<mapsto> success_rate m,
             ''eval_episode_reward'' \<mapsto> avg_episode_reward m,
             ''eval_best_reward'' \<mapsto> avg_best_reward m,
             ''time'' \<mapsto> fst (timer env (world st))]] \<and>
         result_file st' = Some (run_results st') \<and>
         last (trace st') = PickleDump (run_results st')"
  using assms
  by (auto simp: log_metrics_def Let_def eval_record_def split: if_splits prod.splits)

lemma log_metrics_train:
  assumes "log_metrics cfg env False m st = Inr st'" and "itr st mod log_freq cfg = 0"
  shows "\<exists>l. loss st = Some l \<and>
           run_results st' = run_results st @
             [[''itr'' \<mapsto> of_int (itr st), ''loss'' \<mapsto> l,
               ''train_episode_reward'' \<mapsto> avg_episode_reward m,
               ''time'' \<mapsto> fst (timer env (snd (timer env (world st))))]] \<and>
           result_file st' = Some (run_results st') \<and>
           last (trace st') = PickleDump (run_results st')"
  using assms
  by (auto simp: log_metrics_def Let_def train_record_def
      split: if_splits prod.splits option.splits)

text \<open>
  C9, as the code has it. Every completed iteration appends one record to the result
  list. When the index is not a multiple of the logging frequency the record holds the
  index alone and the results file is not touched. When it is, the record also holds
  the metrics of the mode, taken from this iteration's summary (and, in training mode,
  the loss of the last minibatch), and the time read from the timer, and the results
  file is replaced by the whole list.
\<close>

theorem metrics_record_and_results_file:
  assumes "run_iteration cfg env st = Inr st'" and "0 < act_steps cfg"
  shows "\<exists>opts em st1 firsts st2 buf st3 m st4 st5.
           options_venv cfg (itr st) = Inr opts \<and>
           eval_mode cfg (itr st) = Inr em \<and>
           begin_iteration cfg env opts em st = Inr (st1, firsts) \<and>
           collect cfg env em (st1, empty_buffers firsts) = Inr (st2, buf) \<and>
           summarize cfg (st2, buf) = (st3, m) \<and>
           (episodes_start_end (n_envs cfg) (firsts_trajs buf) = [] \<longrightarrow>
              success_rate m = 0 \<and> avg_episode_reward m = 0 \<and> avg_best_reward m = 0) \<and>
           (episodes_start_end (n_envs cfg) (firsts_trajs buf) \<noteq> [] \<longrightarrow>
              avg_episode_reward m =
                np_mean (map (\<lambda>(env_ind, start, end).
                                sum_list (traj_slice (reward_trajs buf) env_ind start end))
                           (episodes_start_end (n_envs cfg) (firsts_trajs buf))) \<and>
              avg_best_reward m =
                np_mean (map (\<lambda>(env_ind, start, end).
                                np_max (traj_slice (reward_trajs buf) env_ind start end) /
                                real (act_steps cfg))
                           (episodes_start_end (n_envs cfg) (firsts_trajs buf))) \<and>
              success_rate m =
                np_mean (map (\<lambda>(env_ind, start, end).
                                of_bool (best_reward_threshold_for_success cfg \<le>
                                         np_max (traj_slice (reward_trajs buf) env_ind start end) /
                                         real (act_steps cfg)))
                           (episodes_start_end (n_envs cfg) (firsts_trajs buf)))) \<and>
           (if \<not> em then update cfg env st3 else Inr st3) = Inr st4 \<and>
           checkpoint cfg env st4 = Inr st5 \<and>
           (itr st mod log_freq cfg \<noteq> 0 \<longrightarrow>
              run_results st' = run_results st @ [[''itr'' \<mapsto> of_int (itr st)]] \<and>
              result_file st' = result_file st) \<and>
           (itr st mod log_freq cfg = 0 \<and> em \<longrightarrow>
              run_results st' = run_results st @
                [[''itr'' \<mapsto> of_int (itr st), ''eval_success_rate'' \<mapsto> success_rate m,
                  ''eval_episode_reward'' \<mapsto> avg_episode_reward m,
                  ''eval_best_reward'' \<mapsto> avg_best_reward m,
                  ''time'' \<mapsto> fst (timer env (world st5))]] \<and>
              result_file st' = Some (run_results st') \<and>
              last (trace st') = PickleDump (run_results st')) \<and>
           (itr st mod log_freq cfg = 0 \<and> \<not> em \<longrightarrow>
              (\<exists>l. loss st4 = Some l \<and>
                 run_results st' = run_results st @
                   [[''itr'' \<mapsto> of_int (itr st), ''loss'' \<mapsto> l,
                     ''train_episode_reward'' \<mapsto> avg_episode_reward m,
                     ''time'' \<mapsto> fst (timer env (snd (timer env (world st5))))]] \<and>
                 result_file st' = Some (run_results st') \<and>
                 last (trace st') = PickleDump (run_results st')))"
proof -
  from assms(1) obtain opts em st1 firsts st2 buf st3 m st4 st5 where
    o: "options_venv cfg (itr st) = Inr opts" and
    e: "eval_mode cfg (itr st) = Inr em" and
    b: "begin_iteration cfg env opts em st = Inr (st1, firsts)" and
    c: "collect cfg env em (st1, empty_buffers firsts) = Inr (st2, buf)" and
    s: "summarize cfg (st2, buf) = (st3, m)" and
    u: "(if \<not> em then update cfg env st3 else Inr st3) = Inr st4" and
    k: "checkpoint cfg env st4 = Inr st5" and
    l: "log_metrics cfg env em m st5 = Inr st'"
    by (rule run_iteration_InrE)
  have "itr st4 = itr st3 \<and> run_results st4 = run_results st3 \<and> result_file st4 = result_file st3"
    using u update_frame [of cfg env st3 st4] by (auto split: if_splits)
  then have same: "itr st5 = itr st" "run_results st5 = run_results st" "result_file st5 = result_file st"
    "loss st5 = loss st4"
    using begin_iteration_frame [OF b] collect_frame [OF c] summarize_frame [OF s]
      checkpoint_frame [OF k] by simp_all
  have skip: "run_results st' = run_results st @ [[''itr'' \<mapsto> of_int (itr st)]] \<and>
              result_file st' = result_file st"
    if "itr st mod log_freq cfg \<noteq> 0"
    using log_metrics_skip [OF l] that by (simp add: same)
  have ev: "run_results st' = run_results st @
                [[''itr'' \<mapsto> of_int (itr st), ''eval_success_rate'' \<mapsto> success_rate m,
                  ''eval_episode_reward'' \<mapsto> avg_episode_reward m,
                  ''eval_best_reward'' \<mapsto> avg_best_reward m,
                  ''time'' \<mapsto> fst (timer env (world st5))]] \<and>
              result_file st' = Some (run_results st') \<and>
              last (trace st') = PickleDump (run_results st')"
    if "itr st mod log_freq cfg = 0 \<and> em"
    using log_metrics_eval [of cfg env m st5 st'] l that by (simp add: same)
  have tr: "\<exists>l. loss st4 = Some l \<and>
                 run_results st' = run_results st @
                   [[''itr'' \<mapsto> of_int (itr st), ''loss'' \<mapsto> l,
                     ''train_episode_reward'' \<mapsto> avg_episode_reward m,
                     ''time'' \<mapsto> fst (timer env (snd (timer env (world st5))))]] \<and>
                 result_file st' = Some (run_results st') \<and>
                 last (trace st') = PickleDump (run_results st')"
    if "itr st mod log_freq cfg = 0 \<and> \<not> em"
    using log_metrics_train [of cfg env m st5 st'] l that by (simp add: same)
  have zero: "success_rate m = 0 \<and> avg_episode_reward m = 0 \<and> avg_best_reward m = 0"
    if "episodes_start_end (n_envs cfg) (firsts_trajs buf) = []"
    using s that by (auto simp: summarize_def Let_def)
  have vals: "avg_episode_reward m =
                np_mean (map (\<lambda>(env_ind, start, end).
                                sum_list (traj_slice (reward_trajs buf) env_ind start end))
                           (episodes_start_end (n_envs cfg) (firsts_trajs buf))) \<and>
              avg_best_reward m =
                np_mean (map (\<lambda>(env_ind, start, end).
                                np_max (traj_slice (reward_trajs buf) env_ind start end) /
                                real (act_steps cfg))
                           (episodes_start_end (n_envs cfg) (firsts_trajs buf))) \<and>
              success_rate m =
                np_mean (map (\<lambda>(env_ind, start, end).
                                of_bool (best_reward_threshold_for_success cfg \<le>
                                         np_max (traj_slice (reward_trajs buf) env_ind start end) /
                                         real (act_steps cfg)))
                           (episodes_start_end (n_envs cfg) (firsts_trajs buf)))"
    if "episodes_start_end (n_envs cfg) (firsts_trajs buf) \<noteq> []"
    using s that by (auto simp: summarize_def Let_def comp_def case_prod_unfold)
  show ?thesis
    using o e b c s u k skip ev tr zero vals
    by (intro exI [of _ opts] exI [of _ em] exI [of _ st1] exI [of _ firsts] exI [of _ st2]
        exI [of _ buf] exI [of _ st3] exI [of _ m] exI [of _ st4] exI [of _ st5]) blast
qed

text \<open>
  Iteration 0 of the instance is an evaluation iteration on a multiple of the logging
  frequency 2: the completed record is appended and the file holds the whole list.
\<close>

theorem metrics_record_and_results_file_witness:
  "run_iteration example_config example_env (initial_state example_config 0 0) = Inr example_after_eval \<and>
   0 < act_steps example_config \<and>
   (0::int) mod log_freq example_config = 0 \<and>
   eval_mode example_config 0 = Inr True \<and>
   run_results example_after_eval =
     [[''itr'' \<mapsto> 0, ''eval_success_rate'' \<mapsto> 0, ''eval_episode_reward'' \<mapsto> 0,
       ''eval_best_reward'' \<mapsto> 0, ''time'' \<mapsto> 3]] \<and>
   result_file example_after_eval = Some (run_results example_after_eval) \<and>
   last (trace example_after_eval) = PickleDump (run_results example_after_eval)"
proof -
  let ?st0 = "initial_state example_config 0 (0::nat) :: (nat, nat, nat) loop_state"
  have act: "0 < act_steps example_config"
    by (simp add: example_config_def)
  have lf: "(0::int) mod log_freq example_config = 0"
    by (simp add: example_config_def)
  have it: "itr ?st0 = 0"
    by (simp add: initial_state_def)
  have em: "eval_mode example_config 0 = Inr True"
    by (simp add: eval_mode_def example_config_def)
  have dumped: "result_file example_after_eval = Some (run_results example_after_eval) \<and>
              last (trace example_after_eval) = PickleDump (run_results example_after_eval)"
    using metrics_record_and_results_file [OF example_iteration_0 act] lf it em
    by (elim exE conjE) simp
  have rr: "run_results example_after_eval =
     [[''itr'' \<mapsto> 0, ''eval_success_rate'' \<mapsto> 0, ''eval_episode_reward'' \<mapsto> 0,
       ''eval_best_reward'' \<mapsto> 0, ''time'' \<mapsto> 3]]"
    by (simp add: example_after_eval_def)
  show ?thesis
    by (intro conjI example_iteration_0 act lf em rr dumped [THEN conjunct1] dumped [THEN conjunct2])
qed

text \<open>
  The claim as written fails on an iteration that does not log: iteration 1 of the
  instance, with logging frequency 2, still appends a record to the result list, one
  that holds the iteration index alone.
\<close>

theorem record_appended_on_iteration_that_does_not_log:
  "run_iteration example_config example_env example_after_eval = Inr example_after_train \<and>
   itr example_after_eval mod log_freq example_config = 1 \<and>
   run_results example_after_train = run_results example_after_eval @ [[''itr'' \<mapsto> 1]] \<and>
   length (run_results example_after_train) = length (run_results example_after_eval) + 1"
  using example_iteration_1
  by (simp add: example_config_def example_after_eval_def example_after_train_def)

end
